theory Spec2Isabelle
  imports Complex_Main
begin

section \<open>Python values\<close>

text \<open>
  A Python \<^verbatim>\<open>str\<close> is a sequence of Unicode code points; a code point is a natural
  number. \<open>lit\<close> turns an ASCII literal into such a sequence. The sentinel of the
  pages, the em dash U+2014, is the one-element sequence \<open>[8212]\<close>.
\<close>

type_synonym pystr = "nat list"

definition lit :: "string \<Rightarrow> pystr" where
  "lit s = map of_char s"

definition emdash :: pystr where
  "emdash = [8212]"

text \<open>
  A Python \<^verbatim>\<open>float\<close> is an IEEE 754 double. A finite double is represented by the
  rational number it denotes; the two infinities and NaN are values of their own. The two
  zeros are not told apart (they compare equal and are both falsy).
\<close>

datatype pyfloat = Fin rat | PInf | NInf | NaN

datatype pyerr = AttributeError | TypeError | OverflowError | ValueError | IndexError

definition dbl_limit :: rat where
  "dbl_limit = 2 ^ 1024 - 2 ^ 970"

text \<open>
  Rounding of a real result to the nearest double, ties to the even significand, as the
  float arithmetic of the interpreter, \<^verbatim>\<open>float(n)\<close> and \<^verbatim>\<open>float(s)\<close> all do. For a
  number \<open>q\<close> that is not zero, \<open>ilog2 \<bar>q\<bar>\<close> is the exponent \<open>e\<close> with
  \<open>2^e \<le> \<bar>q\<bar> < 2^(e+1)\<close>; the doubles around \<open>q\<close> are the multiples of
  \<open>2^(e-52)\<close>, and of \<open>2^(-1074)\<close> in the subnormal range. A result that rounds to
  \<open>2^1024\<close> or more (the exponent is 1024 or more, or it is 1023 and the significand
  rounds up to \<open>2^53\<close>), that is, one of magnitude \<open>2^1024 - 2^970\<close> or more, is an
  infinity.
\<close>

definition pow2 :: "int \<Rightarrow> rat" where
  "pow2 k = (if 0 \<le> k then 2 ^ nat k else 1 / 2 ^ nat (- k))"

text \<open>The number of binary digits of a positive integer.\<close>

function bitlen :: "int \<Rightarrow> nat" where
  "bitlen a = (if a \<le> 0 then 0 else Suc (bitlen (a div 2)))"
  by pat_completeness auto
termination
  by (relation "measure nat") auto

declare bitlen.simps [simp del]

definition ilog2 :: "rat \<Rightarrow> int" where
  "ilog2 q =
     (if 1 \<le> q then int (bitlen \<lfloor>q\<rfloor>) - 1
      else
        let n = int (bitlen \<lfloor>1 / q\<rfloor>) - 1
        in if 1 / q = pow2 n then - n else - n - 1)"

definition round_half_even :: "rat \<Rightarrow> int" where
  "round_half_even m =
     (let f = \<lfloor>m\<rfloor>; r = m - of_int f
      in if r < 1 / 2 then f else if 1 / 2 < r then f + 1 else if even f then f else f + 1)"

definition round_double :: "rat \<Rightarrow> pyfloat" where
  "round_double q =
     (if q = 0 then Fin 0
      else
        let e = max (ilog2 \<bar>q\<bar>) (- 1022);
            u = pow2 (e - 52);
            m = round_half_even (\<bar>q\<bar> / u)
        in if 1024 \<le> e \<or> e = 1023 \<and> 2 ^ 53 \<le> m then (if 0 < q then PInf else NInf)
           else Fin (if 0 < q then of_int m * u else - (of_int m * u)))"

text \<open>\<^verbatim>\<open>float(n)\<close> for an int: the nearest double, and \<^verbatim>\<open>OverflowError\<close> when that
  would be an infinity.\<close>

definition float_of_int :: "int \<Rightarrow> pyerr + pyfloat" where
  "float_of_int n =
     (if dbl_limit \<le> \<bar>of_int n\<bar> then Inl OverflowError else Inr (round_double (of_int n)))"

text \<open>\<^verbatim>\<open>x + y\<close> on floats.\<close>

fun float_add :: "pyfloat \<Rightarrow> pyfloat \<Rightarrow> pyfloat" where
  "float_add NaN _ = NaN"
| "float_add _ NaN = NaN"
| "float_add PInf NInf = NaN"
| "float_add NInf PInf = NaN"
| "float_add PInf _ = PInf"
| "float_add _ PInf = PInf"
| "float_add NInf _ = NInf"
| "float_add _ NInf = NInf"
| "float_add (Fin a) (Fin b) = round_double (a + b)"

text \<open>Python's \<^verbatim>\<open><\<close> on floats: every comparison with NaN is false.\<close>

fun float_less :: "pyfloat \<Rightarrow> pyfloat \<Rightarrow> bool" where
  "float_less NaN _ = False"
| "float_less _ NaN = False"
| "float_less PInf _ = False"
| "float_less _ PInf = True"
| "float_less _ NInf = False"
| "float_less NInf _ = True"
| "float_less (Fin a) (Fin b) = (a < b)"

text \<open>
  The generic JSON tree that \<^verbatim>\<open>json.loads\<close> returns: \<^verbatim>\<open>None\<close>, \<^verbatim>\<open>bool\<close>,
  \<^verbatim>\<open>int\<close>, \<^verbatim>\<open>float\<close>, \<^verbatim>\<open>str\<close>, \<^verbatim>\<open>list\<close> and \<^verbatim>\<open>dict\<close>. A dict is an
  association list in insertion order, read with \<open>map_of\<close>; the dicts of a decoded
  document have distinct keys.
\<close>

datatype json =
    JNull
  | JBool bool
  | JInt int
  | JFloat pyfloat
  | JStr pystr
  | JArr "json list"
  | JObj "(pystr \<times> json) list"

text \<open>Truth value of an object, as \<^verbatim>\<open>if x\<close>, \<^verbatim>\<open>not x\<close> and \<^verbatim>\<open>x or y\<close> test it.\<close>

fun truthy :: "json \<Rightarrow> bool" where
  "truthy JNull = False"
| "truthy (JBool b) = b"
| "truthy (JInt n) = (n \<noteq> 0)"
| "truthy (JFloat f) = (f \<noteq> Fin 0)"
| "truthy (JStr s) = (s \<noteq> [])"
| "truthy (JArr xs) = (xs \<noteq> [])"
| "truthy (JObj kvs) = (kvs \<noteq> [])"

definition py_or :: "json \<Rightarrow> json \<Rightarrow> json" where
  "py_or x y = (if truthy x then x else y)"

text \<open>\<^verbatim>\<open>d.get(k)\<close> and \<^verbatim>\<open>d.get(k, default)\<close> on a dict.\<close>

definition dict_get_default :: "(pystr \<times> json) list \<Rightarrow> pystr \<Rightarrow> json \<Rightarrow> json" where
  "dict_get_default kvs k d = (case map_of kvs k of None \<Rightarrow> d | Some v \<Rightarrow> v)"

definition dict_get :: "(pystr \<times> json) list \<Rightarrow> pystr \<Rightarrow> json" where
  "dict_get kvs k = dict_get_default kvs k JNull"

text \<open>
  \<^verbatim>\<open>x.get(k)\<close> on any object: only a dict has the attribute, every other JSON value
  raises \<^verbatim>\<open>AttributeError\<close>.
\<close>

fun attr_get :: "json \<Rightarrow> pystr \<Rightarrow> pyerr + json" where
  "attr_get (JObj kvs) k = Inr (dict_get kvs k)"
| "attr_get _ k = Inl AttributeError"

text \<open>Sequencing of computations that may raise.\<close>

definition ebind :: "'e + 'a \<Rightarrow> ('a \<Rightarrow> 'e + 'b) \<Rightarrow> 'e + 'b" where
  "ebind m f = (case m of Inl e \<Rightarrow> Inl e | Inr x \<Rightarrow> f x)"

text \<open>
  \<^verbatim>\<open>for x in v\<close>: a list yields its elements, a dict its keys, a str its characters
  (each a str of length one); the other values are not iterable.
\<close>

fun py_iter :: "json \<Rightarrow> pyerr + json list" where
  "py_iter (JArr xs) = Inr xs"
| "py_iter (JObj kvs) = Inr (map (\<lambda>kv. JStr (fst kv)) kvs)"
| "py_iter (JStr s) = Inr (map (\<lambda>c. JStr [c]) s)"
| "py_iter _ = Inl TypeError"

subsection \<open>Strings\<close>

text \<open>\<^verbatim>\<open>x in s\<close> for strings: \<open>x\<close> occurs in \<open>s\<close> as a contiguous block.\<close>

fun starts_with :: "pystr \<Rightarrow> pystr \<Rightarrow> bool" where
  "starts_with [] s = True"
| "starts_with (x # xs) [] = False"
| "starts_with (x # xs) (c # s) = (x = c \<and> starts_with xs s)"

fun str_in :: "pystr \<Rightarrow> pystr \<Rightarrow> bool" where
  "str_in x [] = (x = [])"
| "str_in x (c # s) = (starts_with x (c # s) \<or> str_in x s)"

text \<open>\<^verbatim>\<open>s.split(sep)\<close> for a separator of one character.\<close>

fun split_on :: "nat \<Rightarrow> pystr \<Rightarrow> pystr list" where
  "split_on sep [] = [[]]"
| "split_on sep (c # s) =
     (if c = sep then [] # split_on sep s
      else (case split_on sep s of p # ps \<Rightarrow> (c # p) # ps | [] \<Rightarrow> [[c]]))"

text \<open>
  \<^verbatim>\<open>str(n)\<close> for an integer: decimal digits, with a minus sign when negative. The
  interpreter refuses to print an integer of more than 4300 digits, as it refuses to read
  one; a decoded document holds none, so the conversion is total here.
\<close>

fun digits_of :: "nat \<Rightarrow> pystr" where
  "digits_of n = (if n < 10 then [48 + n] else digits_of (n div 10) @ [48 + n mod 10])"

declare digits_of.simps [simp del]

definition str_of_int :: "int \<Rightarrow> pystr" where
  "str_of_int n = (if n < 0 then 45 # digits_of (nat (- n)) else digits_of (nat n))"

text \<open>
  The builtins of the interpreter that the pages call and that are not arithmetic:
  \<^item> \<open>float_of_str\<close>: \<^verbatim>\<open>float(s)\<close> on a str, \<open>None\<close> when it raises \<^verbatim>\<open>ValueError\<close>;
  \<^item> \<open>int_of_str\<close>: \<^verbatim>\<open>int(s)\<close> on a str, \<open>None\<close> when it raises \<^verbatim>\<open>ValueError\<close>;
  \<^item> \<open>upper\<close>: \<^verbatim>\<open>s.upper()\<close>;
  \<^item> \<open>repr_of\<close>: \<^verbatim>\<open>str(v)\<close> of a float, a list or a dict;
  \<^item> \<open>nan_sort_first\<close>: the element that \<^verbatim>\<open>list.sort(key=..., reverse=True)\<close> puts first
    in a list of keyed elements of which some key is NaN (the order that the sorting
    algorithm of the interpreter leaves then depends on its runs and merges).
  The functions of the pages take them as a parameter, so that a theorem stated for every
  \<open>B\<close> holds for the interpreter's own; \<open>ascii_builtins\<close> below gives them on ASCII text.
\<close>

record py_builtins =
  float_of_str :: "pystr \<Rightarrow> pyfloat option"
  int_of_str :: "pystr \<Rightarrow> int option"
  upper :: "pystr \<Rightarrow> pystr"
  repr_of :: "json \<Rightarrow> pystr"
  nan_sort_first :: "(pyfloat \<times> pystr option \<times> json) list \<Rightarrow> pyfloat \<times> pystr option \<times> json"

text \<open>\<^verbatim>\<open>str(v)\<close>, which is also what an f-string field \<^verbatim>\<open>{v}\<close> renders.\<close>

fun py_str :: "py_builtins \<Rightarrow> json \<Rightarrow> pystr" where
  "py_str B JNull = lit ''None''"
| "py_str B (JBool b) = (if b then lit ''True'' else lit ''False'')"
| "py_str B (JInt n) = str_of_int n"
| "py_str B (JStr s) = s"
| "py_str B v = repr_of B v"

text \<open>
  \<^verbatim>\<open>isinstance(v, int)\<close> and \<^verbatim>\<open>isinstance(v, (int, float))\<close>, with the number found:
  \<^verbatim>\<open>bool\<close> is a subclass of \<^verbatim>\<open>int\<close>, \<^verbatim>\<open>True\<close> counting as 1.
\<close>

fun as_int :: "json \<Rightarrow> int option" where
  "as_int (JInt n) = Some n"
| "as_int (JBool b) = Some (if b then 1 else 0)"
| "as_int _ = None"

datatype pynum = NInt int | NFloat pyfloat

fun as_num :: "json \<Rightarrow> pynum option" where
  "as_num (JInt n) = Some (NInt n)"
| "as_num (JBool b) = Some (NInt (if b then 1 else 0))"
| "as_num (JFloat f) = Some (NFloat f)"
| "as_num _ = None"

fun json_of_num :: "pynum \<Rightarrow> json" where
  "json_of_num (NInt n) = JInt n"
| "json_of_num (NFloat f) = JFloat f"

text \<open>\<^verbatim>\<open>a + b\<close> on numbers: an int meeting a float is converted first, which may overflow.\<close>

fun num_add :: "pynum \<Rightarrow> pynum \<Rightarrow> pyerr + pynum" where
  "num_add (NInt a) (NInt b) = Inr (NInt (a + b))"
| "num_add (NInt a) (NFloat f) = ebind (float_of_int a) (\<lambda>x. Inr (NFloat (float_add x f)))"
| "num_add (NFloat f) (NInt b) = ebind (float_of_int b) (\<lambda>y. Inr (NFloat (float_add f y)))"
| "num_add (NFloat f) (NFloat h) = Inr (NFloat (float_add f h))"

text \<open>\<^verbatim>\<open>x > 0\<close> on a number.\<close>

fun num_pos :: "pynum \<Rightarrow> bool" where
  "num_pos (NInt a) = (0 < a)"
| "num_pos (NFloat f) = float_less (Fin 0) f"

text \<open>\<^verbatim>\<open>x / d\<close> for a float \<open>x\<close> and a finite positive double \<open>d\<close>, and \<^verbatim>\<open>n / d\<close> for
  an int \<open>n\<close>, which is converted first.\<close>

definition float_div :: "pyfloat \<Rightarrow> rat \<Rightarrow> pyfloat" where
  "float_div x d = (case x of Fin a \<Rightarrow> round_double (a / d) | _ \<Rightarrow> x)"

definition int_truediv :: "int \<Rightarrow> rat \<Rightarrow> pyerr + pyfloat" where
  "int_truediv n d = ebind (float_of_int n) (\<lambda>x. Inr (float_div x d))"

text \<open>\<^verbatim>\<open>v == n\<close> for an int \<open>n\<close>: numbers are compared by value, nothing else is equal to an int.\<close>

fun py_eq_int :: "json \<Rightarrow> int \<Rightarrow> bool" where
  "py_eq_int (JInt a) n = (a = n)"
| "py_eq_int (JBool b) n = ((if b then 1 else 0) = n)"
| "py_eq_int (JFloat f) n = (f = Fin (of_int n))"
| "py_eq_int _ n = False"

section \<open>The live-match page (\<^verbatim>\<open>pages/Live_Match.py\<close>)\<close>

subsection \<open>\<^verbatim>\<open>g\<close>: the safe nested get\<close>

fun g :: "json \<Rightarrow> pystr list \<Rightarrow> json \<Rightarrow> json" where
  "g cur [] dflt = cur"
| "g cur (k # ks) dflt =
     (case cur of
        JObj kvs \<Rightarrow> (case map_of kvs k of None \<Rightarrow> dflt | Some v \<Rightarrow> g v ks dflt)
      | _ \<Rightarrow> dflt)"

subsection \<open>\<^verbatim>\<open>show_innings\<close>: the score renderer\<close>

definition show_innings :: "py_builtins \<Rightarrow> json \<Rightarrow> pystr" where
  "show_innings B inn =
     (case inn of
        JObj kvs \<Rightarrow>
          if kvs = [] then []
          else
            let runs = dict_get kvs (lit ''runs'');
                wkts = dict_get kvs (lit ''wickets'');
                overs = dict_get kvs (lit ''overs'');
                overs = (if overs = JNull
                         then (case as_int (dict_get kvs (lit ''balls'')) of
                                 Some balls \<Rightarrow>
                                   JStr (str_of_int (balls div 6) @ lit ''.'' @ str_of_int (balls mod 6))
                               | None \<Rightarrow> JStr (lit ''-''))
                         else overs)
            in if runs = JNull \<and> wkts = JNull then []
               else if wkts \<noteq> JNull
                 then py_str B runs @ lit ''/'' @ py_str B wkts @ lit '' ('' @ py_str B overs @ lit '')''
                 else py_str B runs @ lit '' ('' @ py_str B overs @ lit '')''
      | _ \<Rightarrow> [])"

subsection \<open>\<^verbatim>\<open>guess_format\<close>: the format classifier\<close>

text \<open>The three tests made on one field, \<open>None\<close> when the field gives no tag.\<close>

definition format_tag :: "py_builtins \<Rightarrow> json \<Rightarrow> pystr option" where
  "format_tag B s =
     (case s of
        JStr t \<Rightarrow>
          let u = upper B t
          in if str_in (lit ''TEST'') u then Some (lit ''TEST'')
             else if str_in (lit ''ODI'') u then Some (lit ''ODI'')
             else if str_in (lit ''T20'') u then Some (lit ''T20'')
             else None
      | _ \<Rightarrow> None)"

fun guess_loop :: "py_builtins \<Rightarrow> json \<Rightarrow> pystr list \<Rightarrow> pystr \<Rightarrow> pyerr + pystr" where
  "guess_loop B info [] fallback = Inr fallback"
| "guess_loop B info (k # ks) fallback =
     ebind (attr_get (py_or info (JObj [])) k) (\<lambda>s.
       case format_tag B s of
         Some t \<Rightarrow> Inr t
       | None \<Rightarrow> guess_loop B info ks fallback)"

definition guess_format :: "py_builtins \<Rightarrow> json \<Rightarrow> pystr \<Rightarrow> pyerr + pystr" where
  "guess_format B info fallback =
     ebind (attr_get (py_or info (JObj [])) (lit ''matchFormat'')) (\<lambda>s.
       case format_tag B s of
         Some t \<Rightarrow> Inr t
       | None \<Rightarrow>
           guess_loop B info [lit ''matchDesc'', lit ''stateTitle'', lit ''seriesName''] fallback)"

subsection \<open>\<^verbatim>\<open>overs_to_float\<close>\<close>

text \<open>The body of the \<^verbatim>\<open>try\<close>; \<open>None\<close> when it raises, whatever the exception.\<close>

definition overs_try :: "py_builtins \<Rightarrow> pystr \<Rightarrow> pyfloat option" where
  "overs_try B s =
     (if str_in (lit ''.'') s
      then (case split_on 46 s of
              [ov, b] \<Rightarrow>
                (case float_of_str B ov of
                   None \<Rightarrow> None
                 | Some x \<Rightarrow>
                     (case int_of_str B b of
                        None \<Rightarrow> None
                      | Some n \<Rightarrow>
                          (case int_truediv n 6 of
                             Inl e \<Rightarrow> None
                           | Inr y \<Rightarrow> Some (float_add x y))))
            | _ \<Rightarrow> None)
      else float_of_str B s)"

definition overs_to_float :: "py_builtins \<Rightarrow> json \<Rightarrow> pyerr + pyfloat" where
  "overs_to_float B overs =
     (case overs of
        JNull \<Rightarrow> Inr (Fin (- 1))
      | JInt n \<Rightarrow> float_of_int n
      | JBool b \<Rightarrow> float_of_int (if b then 1 else 0)
      | JFloat f \<Rightarrow> Inr f
      | _ \<Rightarrow>
          (case overs_try B (py_str B overs) of
             None \<Rightarrow> Inr (Fin (- 1))
           | Some x \<Rightarrow> Inr x))"

subsection \<open>\<^verbatim>\<open>_extract_extras\<close>: the extras normalizer\<close>

text \<open>\<^verbatim>\<open>isinstance(v, (int, float, str))\<close> and \<^verbatim>\<open>isinstance(v, dict)\<close>.\<close>

fun is_scalar :: "json \<Rightarrow> bool" where
  "is_scalar (JInt n) = True"
| "is_scalar (JBool b) = True"
| "is_scalar (JFloat f) = True"
| "is_scalar (JStr s) = True"
| "is_scalar _ = False"

fun is_dict :: "json \<Rightarrow> bool" where
  "is_dict (JObj kvs) = True"
| "is_dict _ = False"

fun sum_extras :: "(pystr \<times> json) list \<Rightarrow> pystr list \<Rightarrow> pynum \<Rightarrow> pyerr + pynum" where
  "sum_extras ed [] tot = Inr tot"
| "sum_extras ed (k # ks) tot =
     (case as_num (dict_get ed k) of
        None \<Rightarrow> sum_extras ed ks tot
      | Some v \<Rightarrow> ebind (num_add tot v) (sum_extras ed ks))"

definition extras_keys :: "pystr list" where
  "extras_keys = [lit ''byes'', lit ''legByes'', lit ''wides'', lit ''noBalls'', lit ''penalty'']"

definition extract_extras :: "json \<Rightarrow> pyerr + json" where
  "extract_extras inn =
     (case inn of
        JObj kvs \<Rightarrow>
          if is_scalar (dict_get kvs (lit ''extras'')) then Inr (dict_get kvs (lit ''extras''))
          else if is_scalar (dict_get kvs (lit ''extraRuns''))
            then Inr (dict_get kvs (lit ''extraRuns''))
          else
            (case (if is_dict (dict_get kvs (lit ''extras'')) then dict_get kvs (lit ''extras'')
                   else dict_get kvs (lit ''extraDetail'')) of
               JObj ed \<Rightarrow>
                 ebind (sum_extras ed extras_keys (NInt 0)) (\<lambda>tot.
                   Inr (if num_pos tot then json_of_num tot else JStr emdash))
             | _ \<Rightarrow> Inr (JStr emdash))
      | _ \<Rightarrow> Inr (JStr emdash))"


subsection \<open>\<^verbatim>\<open>pick_current_innings\<close>: the innings selector\<close>

text \<open>A candidate: the overs as a float, the batting team's tag (\<open>None\<close> is Python's
  \<^verbatim>\<open>None\<close>) and the innings record.\<close>

type_synonym cand = "pyfloat \<times> pystr option \<times> json"

text \<open>The loop over the four innings slots; \<open>cands\<close> is the list built so far.\<close>

fun slot_cands :: "py_builtins \<Rightarrow> (pystr \<times> json) list \<Rightarrow> cand list \<Rightarrow> pyerr + cand list" where
  "slot_cands B [] cands = Inr cands"
| "slot_cands B ((bt, inn) # rest) cands =
     (if truthy inn
      then ebind (attr_get inn (lit ''overs'')) (\<lambda>ov.
           ebind (overs_to_float B ov) (\<lambda>k.
             slot_cands B rest (cands @ [(k, Some bt, inn)])))
      else slot_cands B rest cands)"

text \<open>The loop over \<^verbatim>\<open>inningsScoreList\<close>.\<close>

fun isl_cands :: "py_builtins \<Rightarrow> pystr \<Rightarrow> pystr \<Rightarrow> json list \<Rightarrow> cand list \<Rightarrow> pyerr + cand list" where
  "isl_cands B t1s t2s [] cands = Inr cands"
| "isl_cands B t1s t2s (inn # rest) cands =
     (case inn of
        JObj kvs \<Rightarrow>
          let bt_id = dict_get kvs (lit ''batTeamId'');
              bt = (if py_eq_int bt_id 1 then Some t1s
                    else if py_eq_int bt_id 2 then Some t2s else None)
          in ebind (overs_to_float B (dict_get kvs (lit ''overs''))) (\<lambda>k.
               isl_cands B t1s t2s rest (cands @ [(k, bt, inn)]))
      | _ \<Rightarrow> isl_cands B t1s t2s rest cands)"

text \<open>
  \<^verbatim>\<open>cands.sort(key=lambda x: x[0], reverse=True)\<close> is a stable sort into descending
  order of the key that uses only \<^verbatim>\<open><\<close> on the keys. When no key is NaN the keys are
  totally preordered, every stable sort returns the same list, and \<open>sort_desc\<close>, an
  insertion sort, computes it. When some key is NaN the first element is the one that
  the interpreter's algorithm leaves there, \<open>nan_sort_first\<close>.
\<close>

fun insert_desc :: "cand \<Rightarrow> cand list \<Rightarrow> cand list" where
  "insert_desc x [] = [x]"
| "insert_desc x (y # ys) =
     (if float_less (fst x) (fst y) then y # insert_desc x ys else x # y # ys)"

definition sort_desc :: "cand list \<Rightarrow> cand list" where
  "sort_desc cands = foldr insert_desc cands []"

text \<open>The sort followed by \<^verbatim>\<open>cands[0]\<close>.\<close>

definition first_sorted :: "py_builtins \<Rightarrow> cand list \<Rightarrow> pyerr + cand" where
  "first_sorted B cands =
     (if list_ex (\<lambda>c. fst c = NaN) cands then Inr (nan_sort_first B cands)
      else (case sort_desc cands of [] \<Rightarrow> Inl IndexError | c # rest \<Rightarrow> Inr c))"

text \<open>\<^verbatim>\<open>s or "\<emdash>"\<close> for a str or \<^verbatim>\<open>None\<close>.\<close>

definition or_dash :: "pystr option \<Rightarrow> pystr" where
  "or_dash s = (case s of None \<Rightarrow> emdash | Some t \<Rightarrow> if t = [] then emdash else t)"

text \<open>The first half of \<^verbatim>\<open>pick_current_innings\<close>: the candidate list \<^verbatim>\<open>cands\<close> as it
  is when the two loops are done.\<close>

definition innings_cands ::
  "py_builtins \<Rightarrow> json \<Rightarrow> pystr \<Rightarrow> pystr \<Rightarrow> pyerr + cand list" where
  "innings_cands B score t1s t2s =
     (let t1i1 = py_or (g score [lit ''team1Score'', lit ''inngs1''] JNull) (JObj []);
          t1i2 = py_or (g score [lit ''team1Score'', lit ''inngs2''] JNull) (JObj []);
          t2i1 = py_or (g score [lit ''team2Score'', lit ''inngs1''] JNull) (JObj []);
          t2i2 = py_or (g score [lit ''team2Score'', lit ''inngs2''] JNull) (JObj [])
      in ebind (slot_cands B [(t1s, t1i2), (t2s, t2i2), (t1s, t1i1), (t2s, t2i1)] []) (\<lambda>cands.
         ebind (attr_get score (lit ''inningsScoreList'')) (\<lambda>isl.
           case isl of
             JArr xs \<Rightarrow> isl_cands B t1s t2s xs cands
           | _ \<Rightarrow> Inr cands)))"

text \<open>The second half: the empty case, the sort, the first element and the two teams.\<close>

definition select_innings ::
  "py_builtins \<Rightarrow> cand list \<Rightarrow> pystr \<Rightarrow> pystr \<Rightarrow> pyerr + (pystr \<times> pystr \<times> json)" where
  "select_innings B cands t1s t2s =
     (if cands = [] then Inr (emdash, emdash, JObj [])
      else
        ebind (first_sorted B cands) (\<lambda>c.
          case c of
            (k, bat_team, inn) \<Rightarrow>
              let bowl_team = (if bat_team = Some t1s then t2s else t1s)
              in Inr (or_dash bat_team, or_dash (Some bowl_team), py_or inn (JObj []))))"

definition pick_current_innings ::
  "py_builtins \<Rightarrow> json \<Rightarrow> pystr \<Rightarrow> pystr \<Rightarrow> pyerr + (pystr \<times> pystr \<times> json)" where
  "pick_current_innings B score t1s t2s =
     ebind (innings_cands B score t1s t2s) (\<lambda>cands. select_innings B cands t1s t2s)"

text \<open>
  The one call of \<^verbatim>\<open>pick_current_innings\<close>, in the details of the chosen match, passes
  the short names that the page computes from the match info:
  \<^verbatim>\<open>t1_obj = info.get("team1") or {}\<close>,
  \<^verbatim>\<open>t1 = t1_obj.get("teamName") or t1_obj.get("teamSName") or "Team 1"\<close>,
  \<^verbatim>\<open>t1s = t1_obj.get("teamSName") or t1\<close>, and the same for team 2.
\<close>

definition short_name :: "json \<Rightarrow> pystr \<Rightarrow> pystr \<Rightarrow> pyerr + json" where
  "short_name info team placeholder =
     ebind (attr_get info team) (\<lambda>obj.
       let t_obj = py_or obj (JObj [])
       in ebind (attr_get t_obj (lit ''teamName'')) (\<lambda>name.
          ebind (attr_get t_obj (lit ''teamSName'')) (\<lambda>sname.
            let t = py_or name (py_or sname (JStr placeholder))
            in Inr (py_or sname t))))"

subsection \<open>\<^verbatim>\<open>collect_matches\<close>: the payload flattener\<close>

text \<open>One entry of the flat list: the dict with the keys \<^verbatim>\<open>label\<close>, \<^verbatim>\<open>match_id\<close>,
  \<^verbatim>\<open>series\<close>, \<^verbatim>\<open>format\<close>, \<^verbatim>\<open>info\<close> and \<^verbatim>\<open>score\<close>.\<close>

record match_summary =
  ms_label :: pystr
  ms_match_id :: json
  ms_series :: json
  ms_format :: pystr
  ms_info :: json
  ms_score :: json

text \<open>A \<^verbatim>\<open>for\<close> loop whose body appends to the result list and may raise.\<close>

fun for_each :: "('a \<Rightarrow> pyerr + 'b list) \<Rightarrow> 'a list \<Rightarrow> pyerr + 'b list" where
  "for_each body [] = Inr []"
| "for_each body (x # xs) =
     ebind (body x) (\<lambda>ys. ebind (for_each body xs) (\<lambda>zs. Inr (ys @ zs)))"

definition team_name :: "json \<Rightarrow> pystr \<Rightarrow> pystr \<Rightarrow> json" where
  "team_name info team placeholder =
     py_or (g info [team, lit ''teamName''] JNull)
       (py_or (g info [team, lit ''teamSName''] JNull) (JStr placeholder))"

text \<open>The body of the innermost loop, for one element \<open>m\<close> of \<^verbatim>\<open>matches\<close>.\<close>

definition match_entry :: "py_builtins \<Rightarrow> json \<Rightarrow> json \<Rightarrow> pyerr + match_summary list" where
  "match_entry B series_name m =
     ebind (attr_get m (lit ''matchInfo'')) (\<lambda>i.
     ebind (attr_get m (lit ''matchScore'')) (\<lambda>s.
       let info = py_or i (JObj []);
           score = py_or s (JObj [])
       in ebind (attr_get info (lit ''matchId'')) (\<lambda>match_id.
            let t1 = team_name info (lit ''team1'') (lit ''Team 1'');
                t2 = team_name info (lit ''team2'') (lit ''Team 2'')
            in ebind (guess_format B info (lit ''UNKNOWN'')) (\<lambda>fmt.
                 Inr [\<lparr> ms_label = py_str B t1 @ lit '' vs '' @ py_str B t2 @ [32] @ emdash @ [32]
                                    @ py_str B series_name @ lit '' ('' @ fmt @ lit '')'',
                        ms_match_id = match_id,
                        ms_series = series_name,
                        ms_format = fmt,
                        ms_info = info,
                        ms_score = score \<rparr>]))))"

text \<open>The body of the middle loop, for one element \<open>s\<close> of \<^verbatim>\<open>seriesMatches\<close>.\<close>

definition series_entry :: "py_builtins \<Rightarrow> json \<Rightarrow> pyerr + match_summary list" where
  "series_entry B s =
     ebind (attr_get s (lit ''seriesAdWrapper'')) (\<lambda>wrap.
       case wrap of
         JObj w \<Rightarrow>
           let series_name = dict_get_default w (lit ''seriesName'') (JStr (lit ''Series''))
           in ebind (py_iter (py_or (dict_get w (lit ''matches'')) (JArr [])))
                (for_each (match_entry B series_name))
       | _ \<Rightarrow> Inr [])"

text \<open>The body of the outer loop, for one element \<open>bucket\<close> of \<^verbatim>\<open>typeMatches\<close>.\<close>

definition bucket_entry :: "py_builtins \<Rightarrow> json \<Rightarrow> pyerr + match_summary list" where
  "bucket_entry B bucket =
     ebind (attr_get bucket (lit ''seriesMatches'')) (\<lambda>sm.
       ebind (py_iter (py_or sm (JArr []))) (for_each (series_entry B)))"

definition collect_matches :: "py_builtins \<Rightarrow> json \<Rightarrow> pyerr + match_summary list" where
  "collect_matches B payload =
     ebind (attr_get payload (lit ''typeMatches'')) (\<lambda>tm.
       ebind (py_iter (py_or tm (JArr []))) (for_each (bucket_entry B)))"

section \<open>The player page (\<^verbatim>\<open>pages/Player_Stats.py\<close>)\<close>

text \<open>
  The HTTP client is outside the pages. A call of \<^verbatim>\<open>requests.get\<close> either raises or
  returns a response; a raised exception is a \<^verbatim>\<open>requests.RequestException\<close> (with the
  text \<^verbatim>\<open>str(e)\<close>) or another \<^verbatim>\<open>Exception\<close>. A response has its status code and
  body text, the outcome of its \<^verbatim>\<open>json()\<close> method and the outcome of
  \<^verbatim>\<open>json.loads\<close> on its text. The client is a function of the URL, the headers and
  the query parameters. The cache decorator of the functions is not modelled: it returns
  what the body returned.
\<close>

datatype exc = RequestException pystr | OtherException

record response =
  status_code :: int
  body_text :: pystr
  json_method :: "exc + json"
  loads_text :: "exc + json"

type_synonym http_get = "pystr \<Rightarrow> (pystr \<times> pystr) list \<Rightarrow> (pystr \<times> pystr) list \<Rightarrow> exc + response"

definition api_headers :: "pystr \<Rightarrow> pystr \<Rightarrow> (pystr \<times> pystr) list" where
  "api_headers host key = [(lit ''X-RapidAPI-Key'', key), (lit ''X-RapidAPI-Host'', host)]"

subsection \<open>\<^verbatim>\<open>fetch_rankings\<close>\<close>

definition fetch_rankings ::
  "http_get \<Rightarrow> pystr \<Rightarrow> pystr \<Rightarrow> pystr \<Rightarrow> pystr \<Rightarrow> exc + (json option \<times> pystr option)" where
  "fetch_rankings get host key endpoint fmt =
     (let url = lit ''https://'' @ host @ lit ''/stats/v1/rankings/'' @ endpoint
      in case get url (api_headers host key) [(lit ''formatType'', fmt)] of
           Inl (RequestException e) \<Rightarrow> Inr (None, Some (lit ''Network error: '' @ e))
         | Inl OtherException \<Rightarrow> Inl OtherException
         | Inr r \<Rightarrow>
             if status_code r \<noteq> 200
             then Inr (None, Some (lit ''API error '' @ str_of_int (status_code r) @ lit '': ''
                                     @ take 160 (body_text r)))
             else (case json_method r of
                     Inr data \<Rightarrow> Inr (Some data, None)
                   | Inl (RequestException e) \<Rightarrow> Inr (None, Some (lit ''Network error: '' @ e))
                   | Inl OtherException \<Rightarrow> Inl OtherException))"

subsection \<open>\<^verbatim>\<open>search_players\<close>\<close>

text \<open>One entry of the result: the dict with the keys \<^verbatim>\<open>id\<close>, \<^verbatim>\<open>name\<close>, \<^verbatim>\<open>country\<close>.\<close>

record player =
  player_id :: pystr
  player_name :: pystr
  player_country :: pystr

text \<open>The loop over \<^verbatim>\<open>items\<close>; an item that is not a dict has no \<^verbatim>\<open>get\<close>.\<close>

fun map_players :: "py_builtins \<Rightarrow> json list \<Rightarrow> player list \<Rightarrow> pyerr + player list" where
  "map_players B [] out = Inr out"
| "map_players B (p # ps) out =
     (case p of
        JObj d \<Rightarrow>
          let pid = py_or (dict_get d (lit ''id'')) (py_or (dict_get d (lit ''playerId''))
                      (py_or (dict_get d (lit ''idPlayer'')) (dict_get d (lit ''pid''))));
              pname = py_or (dict_get d (lit ''name'')) (py_or (dict_get d (lit ''fullName''))
                        (dict_get d (lit ''playerName'')));
              pcountry = py_or (dict_get d (lit ''country'')) (py_or (dict_get d (lit ''teamName''))
                           (py_or (dict_get d (lit ''team'')) (JStr [])))
          in map_players B ps
               (if truthy pid \<and> truthy pname
                then out @ [\<lparr> player_id = py_str B pid, player_name = py_str B pname,
                               player_country = py_str B pcountry \<rparr>]
                else out)
      | _ \<Rightarrow> Inl AttributeError)"

text \<open>
  The body of the \<^verbatim>\<open>try\<close> for one candidate, given what \<^verbatim>\<open>requests.get\<close> did:
  \<open>Some out\<close> when the function returns \<^verbatim>\<open>(out, None)\<close>, \<open>None\<close> when the loop goes on
  (a \<^verbatim>\<open>continue\<close>, an exception caught by one of the two handlers, or the end of the body).
\<close>

definition try_candidate :: "py_builtins \<Rightarrow> exc + response \<Rightarrow> player list option" where
  "try_candidate B reply =
     (case reply of
        Inl e \<Rightarrow> None
      | Inr r \<Rightarrow>
          if status_code r \<noteq> 200 then None
          else
            (case (case json_method r of Inr data \<Rightarrow> Inr data | Inl e \<Rightarrow> loads_text r) of
               Inl e \<Rightarrow> None
             | Inr (JObj d) \<Rightarrow>
                 (case py_or (dict_get d (lit ''player'')) (py_or (dict_get d (lit ''players''))
                         (py_or (dict_get d (lit ''list'')) (py_or (dict_get d (lit ''results''))
                         (py_or (dict_get d (lit ''result'')) (JArr []))))) of
                    JArr items \<Rightarrow>
                      if items \<noteq> []
                      then (case map_players B items [] of
                              Inl e \<Rightarrow> None
                            | Inr out \<Rightarrow> if out \<noteq> [] then Some out else None)
                      else None
                  | _ \<Rightarrow> None)
             | Inr _ \<Rightarrow> None))"

definition search_candidates :: "pystr \<Rightarrow> pystr \<Rightarrow> (pystr \<times> (pystr \<times> pystr) list) list" where
  "search_candidates host name =
     (let base = lit ''https://'' @ host
      in [(base @ lit ''/stats/v1/player/search'', [(lit ''plrN'', name)]),
          (base @ lit ''/stats/v1/search'', [(lit ''q'', name)]),
          (base @ lit ''/search/v1'', [(lit ''q'', name)]),
          (base @ lit ''/search/v2'', [(lit ''query'', name)])])"

text \<open>The loop over the candidates: \<open>Inl out\<close> when it returns from inside, \<open>Inr tried\<close>
  with the counter when it runs to its end.\<close>

fun search_loop ::
  "py_builtins \<Rightarrow> http_get \<Rightarrow> (pystr \<times> pystr) list \<Rightarrow> (pystr \<times> (pystr \<times> pystr) list) list
     \<Rightarrow> nat \<Rightarrow> player list + nat" where
  "search_loop B get headers [] tried = Inr tried"
| "search_loop B get headers ((url, params) # rest) tried =
     (let tried = tried + 1
      in case try_candidate B (get url headers params) of
           Some out \<Rightarrow> Inl out
         | None \<Rightarrow> search_loop B get headers rest tried)"

definition search_players ::
  "py_builtins \<Rightarrow> http_get \<Rightarrow> pystr \<Rightarrow> pystr \<Rightarrow> pystr \<Rightarrow> player list option \<times> pystr option" where
  "search_players B get host key name =
     (case search_loop B get (api_headers host key) (search_candidates host name) 0 of
        Inl out \<Rightarrow> (Some out, None)
      | Inr tried \<Rightarrow>
          if tried = 0 then (None, Some (lit ''Could not reach search service.''))
          else (Some [], None))"


section \<open>The builtins on ASCII text\<close>

text \<open>
  \<^verbatim>\<open>float(s)\<close>, \<^verbatim>\<open>int(s)\<close> and \<^verbatim>\<open>s.upper()\<close> as the interpreter computes them when the
  digits and letters of \<open>s\<close> are ASCII: surrounding whitespace is stripped, a sign may
  come first, the digits of a number may be grouped by single underscores, a float may be
  \<^verbatim>\<open>inf\<close>, \<^verbatim>\<open>infinity\<close> or \<^verbatim>\<open>nan\<close> in any case or a decimal number with an exponent,
  and \<^verbatim>\<open>int\<close> refuses more than 4300 digits. The decimal digits and the cased letters
  that Unicode has beyond ASCII are not recognised here. The examples of the
  specification are evaluated with these; none of them has a NaN key, so the choice made
  below for \<open>nan_sort_first\<close> is never consulted.
\<close>

definition is_space :: "nat \<Rightarrow> bool" where
  "is_space c \<longleftrightarrow> c \<in> set [9, 10, 11, 12, 13, 32, 133, 160, 5760, 8232, 8233, 8239, 8287, 12288]
                   \<or> (8192 \<le> c \<and> c \<le> 8202)"

definition is_digit :: "nat \<Rightarrow> bool" where
  "is_digit c \<longleftrightarrow> 48 \<le> c \<and> c \<le> 57"

definition strip :: "pystr \<Rightarrow> pystr" where
  "strip s = rev (dropWhile is_space (rev (dropWhile is_space s)))"

definition ascii_upper :: "pystr \<Rightarrow> pystr" where
  "ascii_upper s = map (\<lambda>c. if 97 \<le> c \<and> c \<le> 122 then c - 32 else c) s"

definition ascii_lower :: "pystr \<Rightarrow> pystr" where
  "ascii_lower s = map (\<lambda>c. if 65 \<le> c \<and> c \<le> 90 then c + 32 else c) s"

text \<open>A digit, then digits each preceded by at most one underscore.\<close>

fun digitpart :: "pystr \<Rightarrow> bool" where
  "digitpart [] = False"
| "digitpart [c] = is_digit c"
| "digitpart (c # d # s) =
     (is_digit c \<and> (if d = 95 then s \<noteq> [] \<and> digitpart s else digitpart (d # s)))"

definition digits_val :: "pystr \<Rightarrow> nat" where
  "digits_val s = foldl (\<lambda>a c. 10 * a + (c - 48)) 0 (filter is_digit s)"

definition take_sign :: "pystr \<Rightarrow> int \<times> pystr" where
  "take_sign s =
     (case s of
        [] \<Rightarrow> (1, [])
      | c # r \<Rightarrow> if c = 43 then (1, r) else if c = 45 then (- 1, r) else (1, s))"

definition ascii_int :: "pystr \<Rightarrow> int option" where
  "ascii_int s =
     (case take_sign (strip s) of
        (sg, r) \<Rightarrow>
          if digitpart r \<and> length (filter is_digit r) \<le> 4300
          then Some (sg * int (digits_val r)) else None)"

text \<open>The part of a string before the first character that satisfies \<open>P\<close>, and the part
  after it when there is one.\<close>

definition cut_at :: "(nat \<Rightarrow> bool) \<Rightarrow> pystr \<Rightarrow> pystr \<times> pystr option" where
  "cut_at P s =
     (takeWhile (\<lambda>c. \<not> P c) s,
      case dropWhile (\<lambda>c. \<not> P c) s of [] \<Rightarrow> None | c # r \<Rightarrow> Some r)"

text \<open>The mantissa: digits, with a point before, inside or after them.\<close>

definition mantissa :: "pystr \<Rightarrow> rat option" where
  "mantissa s =
     (case cut_at (\<lambda>c. c = 46) s of
        (ip, None) \<Rightarrow> if digitpart ip then Some (of_nat (digits_val ip)) else None
      | (ip, Some fp) \<Rightarrow>
          if (ip = [] \<or> digitpart ip) \<and> (fp = [] \<or> digitpart fp) \<and> \<not> (ip = [] \<and> fp = [])
          then Some (of_nat (digits_val ip)
                     + of_nat (digits_val fp) / 10 ^ length (filter is_digit fp))
          else None)"

definition exponent :: "pystr \<Rightarrow> int option" where
  "exponent s =
     (case take_sign s of
        (sg, r) \<Rightarrow> if digitpart r then Some (sg * int (digits_val r)) else None)"

definition float_number :: "pystr \<Rightarrow> rat option" where
  "float_number s =
     (case cut_at (\<lambda>c. c = 101 \<or> c = 69) s of
        (m, None) \<Rightarrow> mantissa m
      | (m, Some ex) \<Rightarrow>
          (case mantissa m of
             None \<Rightarrow> None
           | Some q \<Rightarrow>
               (case exponent ex of
                  None \<Rightarrow> None
                | Some e \<Rightarrow> Some (if 0 \<le> e then q * 10 ^ nat e else q / 10 ^ nat (- e)))))"

definition ascii_float :: "pystr \<Rightarrow> pyfloat option" where
  "ascii_float s =
     (case take_sign (strip s) of
        (sg, r) \<Rightarrow>
          if ascii_lower r = lit ''inf'' \<or> ascii_lower r = lit ''infinity''
          then Some (if sg = 1 then PInf else NInf)
          else if ascii_lower r = lit ''nan'' then Some NaN
          else (case float_number r of
                  None \<Rightarrow> None
                | Some q \<Rightarrow> Some (round_double (of_int sg * q))))"

definition ascii_builtins :: "(json \<Rightarrow> pystr) \<Rightarrow> py_builtins" where
  "ascii_builtins R =
     \<lparr> float_of_str = ascii_float, int_of_str = ascii_int, upper = ascii_upper, repr_of = R,
       nan_sort_first = (\<lambda>cands. case sort_desc cands of
                                    [] \<Rightarrow> (NaN, None, JNull) | c # rest \<Rightarrow> c) \<rparr>"


section \<open>Definitions that follow the specification\<close>

text \<open>
  The result list of the player search as the specification words it: the mapped list of
  the first endpoint variant that yields one, the empty list when none does. The argument
  lists, variant by variant, what each one yields.
\<close>

fun first_hit :: "player list option list \<Rightarrow> player list" where
  "first_hit [] = []"
| "first_hit (None # rs) = first_hit rs"
| "first_hit (Some out # rs) = out"

text \<open>
  A sub-field of the extras breakdown as the specification counts it: its integer value,
  and 0 when it is missing.
\<close>

definition extras_part :: "(pystr \<times> json) list \<Rightarrow> pystr \<Rightarrow> int" where
  "extras_part ed k = (case as_int (dict_get ed k) of None \<Rightarrow> 0 | Some n \<Rightarrow> n)"

text \<open>
  The format classifier as the specification words it: the fields \<^verbatim>\<open>matchFormat\<close>,
  \<^verbatim>\<open>matchDesc\<close>, \<^verbatim>\<open>stateTitle\<close>, \<^verbatim>\<open>seriesName\<close> are inspected in this order, a field
  that is a string containing one of the three tags (case-insensitively) decides, a field
  that is missing or not a string is skipped, and the result is the fallback when no
  field decides.
\<close>

definition format_fields :: "pystr list" where
  "format_fields = [lit ''matchFormat'', lit ''matchDesc'', lit ''stateTitle'', lit ''seriesName'']"

fun first_tag :: "py_builtins \<Rightarrow> (pystr \<times> json) list \<Rightarrow> pystr list \<Rightarrow> pystr \<Rightarrow> pystr" where
  "first_tag B kvs [] fallback = fallback"
| "first_tag B kvs (k # ks) fallback =
     (case dict_get kvs k of
        JStr s \<Rightarrow>
          if str_in (lit ''TEST'') (upper B s) then lit ''TEST''
          else if str_in (lit ''ODI'') (upper B s) then lit ''ODI''
          else if str_in (lit ''T20'') (upper B s) then lit ''T20''
          else first_tag B kvs ks fallback
      | _ \<Rightarrow> first_tag B kvs ks fallback)"

text \<open>
  The candidates of the innings selector as the specification enumerates them, without
  their keys: the four innings slots that are present, in the order team1-inngs2,
  team2-inngs2, team1-inngs1, team2-inngs1, each with its team's tag, then every dict of
  \<^verbatim>\<open>inningsScoreList\<close> with the tag that its \<^verbatim>\<open>batTeamId\<close> names.
\<close>

definition id_tag :: "pystr \<Rightarrow> pystr \<Rightarrow> json \<Rightarrow> pystr option" where
  "id_tag t1s t2s bt_id =
     (if py_eq_int bt_id 1 then Some t1s else if py_eq_int bt_id 2 then Some t2s else None)"

definition enumerated :: "json \<Rightarrow> pystr \<Rightarrow> pystr \<Rightarrow> (pystr option \<times> json) list" where
  "enumerated score t1s t2s =
     filter (\<lambda>c. truthy (snd c))
       [(Some t1s, g score [lit ''team1Score'', lit ''inngs2''] JNull),
        (Some t2s, g score [lit ''team2Score'', lit ''inngs2''] JNull),
        (Some t1s, g score [lit ''team1Score'', lit ''inngs1''] JNull),
        (Some t2s, g score [lit ''team2Score'', lit ''inngs1''] JNull)]
     @ (case g score [lit ''inningsScoreList''] JNull of
          JArr xs \<Rightarrow>
            map (\<lambda>inn. (id_tag t1s t2s (g inn [lit ''batTeamId''] JNull), inn)) (filter is_dict xs)
        | _ \<Rightarrow> [])"

text \<open>
  The shape of the match listing as the specification gives it,
  \<^verbatim>\<open>{typeMatches: [{seriesMatches: [{seriesAdWrapper: {seriesName, matches: [{matchInfo, matchScore}]}}]}]}\<close>,
  where a level may be absent or falsy but, when it is there, is of its kind: the three
  lists are lists of mappings and \<^verbatim>\<open>matchInfo\<close> is a mapping. A \<^verbatim>\<open>seriesAdWrapper\<close> may
  be anything; only one that is a mapping is looked into.
\<close>

definition absent_or_list_of :: "(json \<Rightarrow> bool) \<Rightarrow> json \<Rightarrow> bool" where
  "absent_or_list_of P v =
     (if truthy v then (case v of JArr xs \<Rightarrow> list_all P xs | _ \<Rightarrow> False) else True)"

definition match_shaped :: "json \<Rightarrow> bool" where
  "match_shaped m =
     (case m of
        JObj kvs \<Rightarrow>
          (if truthy (dict_get kvs (lit ''matchInfo''))
           then is_dict (dict_get kvs (lit ''matchInfo'')) else True)
      | _ \<Rightarrow> False)"

definition series_shaped :: "json \<Rightarrow> bool" where
  "series_shaped s =
     (case s of
        JObj kvs \<Rightarrow>
          (case dict_get kvs (lit ''seriesAdWrapper'') of
             JObj w \<Rightarrow> absent_or_list_of match_shaped (dict_get w (lit ''matches''))
           | _ \<Rightarrow> True)
      | _ \<Rightarrow> False)"

definition bucket_shaped :: "json \<Rightarrow> bool" where
  "bucket_shaped b =
     (case b of
        JObj kvs \<Rightarrow> absent_or_list_of series_shaped (dict_get kvs (lit ''seriesMatches''))
      | _ \<Rightarrow> False)"

definition listing_shaped :: "json \<Rightarrow> bool" where
  "listing_shaped payload =
     (case payload of
        JObj kvs \<Rightarrow> absent_or_list_of bucket_shaped (dict_get kvs (lit ''typeMatches''))
      | _ \<Rightarrow> False)"

text \<open>
  The shape of a score document for the innings selector: a mapping whose four innings
  slots are each absent, falsy or a mapping, and in which no \<^verbatim>\<open>overs\<close> of a candidate
  is an integer too large for a double.
\<close>

definition overs_in_range :: "json \<Rightarrow> bool" where
  "overs_in_range inn =
     (case inn of
        JObj kvs \<Rightarrow>
          (case dict_get kvs (lit ''overs'') of
             JInt n \<Rightarrow> \<bar>of_int n\<bar> < dbl_limit
           | _ \<Rightarrow> True)
      | _ \<Rightarrow> True)"

definition slot_shaped :: "json \<Rightarrow> bool" where
  "slot_shaped inn = (if truthy inn then is_dict inn \<and> overs_in_range inn else True)"

definition score_shaped :: "json \<Rightarrow> bool" where
  "score_shaped score =
     (case score of
        JObj kvs \<Rightarrow>
          slot_shaped (g score [lit ''team1Score'', lit ''inngs1''] JNull)
        \<and> slot_shaped (g score [lit ''team1Score'', lit ''inngs2''] JNull)
        \<and> slot_shaped (g score [lit ''team2Score'', lit ''inngs1''] JNull)
        \<and> slot_shaped (g score [lit ''team2Score'', lit ''inngs2''] JNull)
        \<and> (case dict_get kvs (lit ''inningsScoreList'') of
              JArr xs \<Rightarrow> list_all overs_in_range xs
            | _ \<Rightarrow> True)
      | _ \<Rightarrow> False)"

section \<open>Properties\<close>

subsection \<open>Facts about strings\<close>

lemma starts_with_append: "starts_with x (x @ b)"
  by (induction x) auto

lemma str_in_here: "str_in x (x @ b)"
  by (cases "x @ b") (auto simp: starts_with_append dest: sym)

lemma str_in_later: "str_in x s \<Longrightarrow> str_in x (a @ s)"
  by (induction a) auto

lemma str_in_middle: "str_in x (a @ x @ b)"
  by (rule str_in_later) (rule str_in_here)

lemma str_of_int_500: "str_of_int 500 = lit ''500''"
  by (simp add: str_of_int_def digits_of.simps lit_def)

subsection \<open>The rankings fetch on a response that is not 200\<close>

text \<open>
  C8. When the HTTP client answers the rankings request with a response whose status code
  is not 200, \<open>fetch_rankings\<close> does not raise: it returns no data and an error string
  made of \<^verbatim>\<open>API error\<close>, the status code in decimal and the first 160 characters of
  the body. The string contains the status code (for 500, the text \<^verbatim>\<open>500\<close>) and the
  preview has at most 160 characters.
\<close>

theorem fetch_rankings_non_200:
  assumes reply: "get (lit ''https://'' @ host @ lit ''/stats/v1/rankings/'' @ endpoint)
                    (api_headers host key) [(lit ''formatType'', fmt)] = Inr r"
    and status: "status_code r \<noteq> 200"
  shows "\<exists>msg preview.
           fetch_rankings get host key endpoint fmt = Inr (None, Some msg)
         \<and> msg = lit ''API error '' @ str_of_int (status_code r) @ lit '': '' @ preview
         \<and> preview = take 160 (body_text r)
         \<and> length preview \<le> 160
         \<and> str_in (str_of_int (status_code r)) msg
         \<and> (status_code r = 500 \<longrightarrow> str_in (lit ''500'') msg)"
proof -
  let ?preview = "take 160 (body_text r)"
  let ?msg = "lit ''API error '' @ str_of_int (status_code r) @ lit '': '' @ ?preview"
  have run: "fetch_rankings get host key endpoint fmt = Inr (None, Some ?msg)"
    using reply status by (simp add: fetch_rankings_def)
  have inside: "str_in (str_of_int (status_code r)) ?msg"
    by (rule str_in_middle)
  have short: "length ?preview \<le> 160"
    by simp
  from run inside short show ?thesis
    using str_of_int_500 by auto
qed

text \<open>A response 500 with a body of 200 characters: the preview is cut to 160.\<close>

theorem fetch_rankings_non_200_witness:
  "fetch_rankings
     (\<lambda>url headers params. Inr \<lparr> status_code = 500, body_text = replicate 200 120,
          json_method = Inl OtherException, loads_text = Inl OtherException \<rparr>)
     (lit ''h'') (lit ''k'') (lit ''batsmen'') (lit ''test'')
   = Inr (None, Some (lit ''API error 500: '' @ replicate 160 120))"
  using fetch_rankings_non_200 [of "\<lambda>url headers params. Inr \<lparr> status_code = 500, body_text = replicate 200 120,
          json_method = Inl OtherException, loads_text = Inl OtherException \<rparr>"
       "lit ''h''" "lit ''batsmen''" "lit ''k''" "lit ''test''"
       "\<lparr> status_code = 500, body_text = replicate 200 120,
          json_method = Inl OtherException, loads_text = Inl OtherException \<rparr>"]
  by (simp add: str_of_int_500 lit_def)

subsection \<open>The player search\<close>

lemma search_loop_end:
  "search_loop B get headers cs tried = Inr n \<Longrightarrow> n = tried + length cs"
proof (induction cs arbitrary: tried)
  case Nil
  then show ?case by simp
next
  case (Cons c cs)
  obtain url params where c: "c = (url, params)"
    by (cases c)
  from Cons.prems c have "search_loop B get headers cs (tried + 1) = Inr n"
    by (simp split: option.splits)
  from Cons.IH [OF this] show ?case
    by simp
qed

lemma search_loop_hit:
  "search_loop B get headers cs tried = Inl out \<Longrightarrow>
     first_hit (map (\<lambda>c. try_candidate B (get (fst c) headers (snd c))) cs) = out"
  by (induction cs arbitrary: tried) (auto split: option.splits)

lemma search_loop_miss:
  "search_loop B get headers cs tried = Inr n \<Longrightarrow>
     first_hit (map (\<lambda>c. try_candidate B (get (fst c) headers (snd c))) cs) = []"
  by (induction cs arbitrary: tried) (auto split: option.splits)

lemma try_candidate_nonempty: "try_candidate B reply = Some out \<Longrightarrow> out \<noteq> []"
  by (auto simp: try_candidate_def split: sum.splits if_splits json.splits)

lemma search_loop_hit_nonempty:
  "search_loop B get headers cs tried = Inl out \<Longrightarrow> out \<noteq> []"
proof (induction cs arbitrary: tried)
  case Nil
  then show ?case by simp
next
  case (Cons c cs)
  obtain url params where c: "c = (url, params)"
    by (cases c)
  show ?case
  proof (cases "try_candidate B (get url headers params)")
    case None
    with Cons.prems c have "search_loop B get headers cs (tried + 1) = Inl out"
      by simp
    from Cons.IH [OF this] show ?thesis .
  next
    case (Some found)
    with Cons.prems c have "found = out"
      by simp
    with Some show ?thesis
      by (auto dest: try_candidate_nonempty)
  qed
qed

lemma length_search_candidates: "length (search_candidates host name) = 4"
  by (simp add: search_candidates_def Let_def)

text \<open>
  C9. Whatever the HTTP client does on the four search endpoints, \<open>search_players\<close>
  returns a pair whose error component is \<^verbatim>\<open>None\<close>; its list is the mapped list of the
  first variant that yields one (never empty then) and the empty list otherwise. When the
  loop runs to its end the counter \<^verbatim>\<open>tried\<close> is 4, so the branch for \<^verbatim>\<open>tried == 0\<close> is
  never taken.
\<close>

theorem search_players_no_error:
  "snd (search_players B get host key name) = None
   \<and> fst (search_players B get host key name)
       = Some (first_hit (map (\<lambda>c. try_candidate B (get (fst c) (api_headers host key) (snd c)))
                            (search_candidates host name)))
   \<and> (\<forall>tried. search_loop B get (api_headers host key) (search_candidates host name) 0 = Inr tried
         \<longrightarrow> tried = 4)
   \<and> (\<forall>out. search_loop B get (api_headers host key) (search_candidates host name) 0 = Inl out
         \<longrightarrow> out \<noteq> [])"
proof (cases "search_loop B get (api_headers host key) (search_candidates host name) 0")
  case (Inl out)
  then show ?thesis
    using search_loop_hit [OF Inl] search_loop_hit_nonempty [OF Inl]
    by (simp add: search_players_def)
next
  case (Inr n)
  from search_loop_end [OF Inr] have "n = 4"
    by (simp add: length_search_candidates)
  then show ?thesis
    using Inr search_loop_miss [OF Inr] by (simp add: search_players_def)
qed

text \<open>A client whose four requests all time out.\<close>

theorem search_players_no_error_witness:
  "search_loop (ascii_builtins (\<lambda>v. [])) (\<lambda>url headers params. Inl (RequestException (lit ''timed out'')))
      (api_headers (lit ''h'') (lit ''k'')) (search_candidates (lit ''h'') (lit ''kohli'')) 0 = Inr 4
   \<and> search_players (ascii_builtins (\<lambda>v. [])) (\<lambda>url headers params. Inl (RequestException (lit ''timed out'')))
      (lit ''h'') (lit ''k'') (lit ''kohli'') = (Some [], None)"
proof -
  let ?B = "ascii_builtins (\<lambda>v. [])"
  let ?get = "(\<lambda>url headers params. Inl (RequestException (lit ''timed out''))) :: http_get"
  let ?loop = "search_loop ?B ?get (api_headers (lit ''h'') (lit ''k''))
                 (search_candidates (lit ''h'') (lit ''kohli'')) 0"
  note main = search_players_no_error [of ?B ?get "lit ''h''" "lit ''k''" "lit ''kohli''"]
  have "\<exists>tried. ?loop = Inr tried"
    by (simp add: search_candidates_def try_candidate_def)
  then obtain tried where run: "?loop = Inr tried" ..
  with main have "tried = 4"
    by blast
  with run have loop: "?loop = Inr 4"
    by simp
  from main have "snd (search_players ?B ?get (lit ''h'') (lit ''k'') (lit ''kohli'')) = None"
    by blast
  moreover from main
  have "fst (search_players ?B ?get (lit ''h'') (lit ''k'') (lit ''kohli'')) = Some []"
    by (simp add: search_candidates_def try_candidate_def)
  ultimately have "search_players ?B ?get (lit ''h'') (lit ''k'') (lit ''kohli'') = (Some [], None)"
    by (simp add: prod_eq_iff)
  with loop show ?thesis
    by simp
qed

subsection \<open>The score renderer\<close>

lemma show_innings_dict:
  assumes "kvs \<noteq> []"
  shows "\<exists>slot.
      (dict_get kvs (lit ''wickets'') \<noteq> JNull \<longrightarrow>
         show_innings B (JObj kvs)
           = py_str B (dict_get kvs (lit ''runs'')) @ lit ''/''
             @ py_str B (dict_get kvs (lit ''wickets'')) @ lit '' ('' @ slot @ lit '')'')
    \<and> (dict_get kvs (lit ''wickets'') = JNull \<and> dict_get kvs (lit ''runs'') \<noteq> JNull \<longrightarrow>
         show_innings B (JObj kvs)
           = py_str B (dict_get kvs (lit ''runs'')) @ lit '' ('' @ slot @ lit '')'')
    \<and> (dict_get kvs (lit ''wickets'') = JNull \<and> dict_get kvs (lit ''runs'') = JNull \<longrightarrow>
         show_innings B (JObj kvs) = [])
    \<and> (dict_get kvs (lit ''overs'') \<noteq> JNull \<longrightarrow> slot = py_str B (dict_get kvs (lit ''overs'')))
    \<and> (dict_get kvs (lit ''overs'') = JNull \<longrightarrow>
         (\<forall>balls. as_int (dict_get kvs (lit ''balls'')) = Some balls \<longrightarrow>
            slot = str_of_int (balls div 6) @ lit ''.'' @ str_of_int (balls mod 6))
       \<and> (as_int (dict_get kvs (lit ''balls'')) = None \<longrightarrow> slot = lit ''-''))"
  using assms
  by (cases "as_int (dict_get kvs (lit ''balls''))")
     (simp_all add: show_innings_def Let_def)

lemma show_innings_full_record:
  "show_innings B (JObj [(lit ''runs'', JInt 120), (lit ''wickets'', JInt 4),
                         (lit ''overs'', JStr (lit ''18.2''))])
     = lit ''120/4 (18.2)''"
  by (simp add: show_innings_def Let_def dict_get_def dict_get_default_def lit_def
      str_of_int_def digits_of.simps)

lemma show_innings_balls_record:
  "show_innings B (JObj [(lit ''runs'', JInt 45), (lit ''wickets'', JNull),
                         (lit ''overs'', JNull), (lit ''balls'', JInt 13)])
     = lit ''45 (2.1)''"
  by (simp add: show_innings_def Let_def dict_get_def dict_get_default_def lit_def
      str_of_int_def digits_of.simps)

text \<open>
  C6. For an innings record (a dict that is not empty) \<open>show_innings\<close> renders
  \<^verbatim>\<open>{runs}/{wickets} ({overs})\<close> when \<^verbatim>\<open>wickets\<close> is not \<^verbatim>\<open>None\<close>, \<^verbatim>\<open>{runs} ({overs})\<close>
  when \<^verbatim>\<open>wickets\<close> is \<^verbatim>\<open>None\<close> and \<^verbatim>\<open>runs\<close> is not, and the empty string when both are
  \<^verbatim>\<open>None\<close>. The overs slot is the \<^verbatim>\<open>overs\<close> field as it is when that is not \<^verbatim>\<open>None\<close>,
  else \<^verbatim>\<open>balls // 6\<close>, a point and \<^verbatim>\<open>balls % 6\<close> when \<^verbatim>\<open>balls\<close> is an integer, else
  \<^verbatim>\<open>-\<close>. The empty record renders the empty string, and the two records of the
  specification render \<^verbatim>\<open>120/4 (18.2)\<close> and \<^verbatim>\<open>45 (2.1)\<close>.
\<close>

theorem show_innings_renders:
  "(kvs \<noteq> [] \<longrightarrow>
     (\<exists>slot.
        (dict_get kvs (lit ''wickets'') \<noteq> JNull \<longrightarrow>
           show_innings B (JObj kvs)
             = py_str B (dict_get kvs (lit ''runs'')) @ lit ''/''
               @ py_str B (dict_get kvs (lit ''wickets'')) @ lit '' ('' @ slot @ lit '')'')
      \<and> (dict_get kvs (lit ''wickets'') = JNull \<and> dict_get kvs (lit ''runs'') \<noteq> JNull \<longrightarrow>
           show_innings B (JObj kvs)
             = py_str B (dict_get kvs (lit ''runs'')) @ lit '' ('' @ slot @ lit '')'')
      \<and> (dict_get kvs (lit ''wickets'') = JNull \<and> dict_get kvs (lit ''runs'') = JNull \<longrightarrow>
           show_innings B (JObj kvs) = [])
      \<and> (dict_get kvs (lit ''overs'') \<noteq> JNull \<longrightarrow>
           slot = py_str B (dict_get kvs (lit ''overs'')))
      \<and> (dict_get kvs (lit ''overs'') = JNull \<longrightarrow>
           (\<forall>balls. as_int (dict_get kvs (lit ''balls'')) = Some balls \<longrightarrow>
              slot = str_of_int (balls div 6) @ lit ''.'' @ str_of_int (balls mod 6))
         \<and> (as_int (dict_get kvs (lit ''balls'')) = None \<longrightarrow> slot = lit ''-''))))
   \<and> show_innings B (JObj []) = []
   \<and> show_innings B (JObj [(lit ''runs'', JInt 120), (lit ''wickets'', JInt 4),
                            (lit ''overs'', JStr (lit ''18.2''))]) = lit ''120/4 (18.2)''
   \<and> show_innings B (JObj [(lit ''runs'', JInt 45), (lit ''wickets'', JNull),
                            (lit ''overs'', JNull), (lit ''balls'', JInt 13)]) = lit ''45 (2.1)''"
proof -
  have empty: "show_innings B (JObj []) = []"
    by (simp add: show_innings_def)
  show ?thesis
    using show_innings_dict [of kvs B] empty show_innings_full_record show_innings_balls_record
    by blast
qed

text \<open>A record with runs and a ball count only: 17 balls are 2 overs and 5 balls.\<close>

theorem show_innings_renders_witness:
  "show_innings (ascii_builtins (\<lambda>v. [])) (JObj [(lit ''runs'', JInt 31), (lit ''balls'', JInt 17)])
     = lit ''31 (2.5)''"
  using show_innings_renders
    [of "[(lit ''runs'', JInt 31), (lit ''balls'', JInt 17)]" "ascii_builtins (\<lambda>v. [])"]
  by (simp add: dict_get_def dict_get_default_def lit_def str_of_int_def digits_of.simps)

subsection \<open>The extras normalizer\<close>

text \<open>The loop of the breakdown, when no sub-field is a float: an integer sum.\<close>

lemma sum_extras_ints:
  assumes "\<forall>k \<in> set ks. \<forall>f. dict_get ed k \<noteq> JFloat f"
  shows "sum_extras ed ks (NInt a) = Inr (NInt (a + sum_list (map (extras_part ed) ks)))"
  using assms
proof (induction ks arbitrary: a)
  case Nil
  then show ?case by simp
next
  case (Cons k ks)
  from Cons.prems have rest: "\<forall>k \<in> set ks. \<forall>f. dict_get ed k \<noteq> JFloat f"
    by simp
  from Cons.prems have here: "\<forall>f. dict_get ed k \<noteq> JFloat f"
    by simp
  show ?case
  proof (cases "dict_get ed k")
    case (JFloat f)
    with here show ?thesis by simp
  qed (simp_all add: Cons.IH [OF rest] extras_part_def ebind_def)
qed

lemma extract_extras_priority:
  "(is_scalar (dict_get kvs (lit ''extras'')) \<longrightarrow>
      extract_extras (JObj kvs) = Inr (dict_get kvs (lit ''extras'')))
   \<and> (\<not> is_scalar (dict_get kvs (lit ''extras'')) \<and> is_scalar (dict_get kvs (lit ''extraRuns'')) \<longrightarrow>
      extract_extras (JObj kvs) = Inr (dict_get kvs (lit ''extraRuns'')))
   \<and> (\<not> is_scalar (dict_get kvs (lit ''extras'')) \<and> \<not> is_scalar (dict_get kvs (lit ''extraRuns'')) \<longrightarrow>
        (\<forall>ed. (dict_get kvs (lit ''extras'') = JObj ed
               \<or> \<not> is_dict (dict_get kvs (lit ''extras'')) \<and> dict_get kvs (lit ''extraDetail'') = JObj ed) \<longrightarrow>
           extract_extras (JObj kvs)
             = ebind (sum_extras ed extras_keys (NInt 0)) (\<lambda>tot.
                 Inr (if num_pos tot then json_of_num tot else JStr emdash)))
      \<and> (\<not> is_dict (dict_get kvs (lit ''extras'')) \<and> \<not> is_dict (dict_get kvs (lit ''extraDetail'')) \<longrightarrow>
           extract_extras (JObj kvs) = Inr (JStr emdash)))"
  by (cases "dict_get kvs (lit ''extras'')"; cases "dict_get kvs (lit ''extraDetail'')")
     (auto simp: extract_extras_def)

lemma extract_extras_examples:
  "extract_extras (JObj [(lit ''extras'', JInt 7)]) = Inr (JInt 7)"
  "extract_extras (JObj [(lit ''extraDetail'', JObj [(lit ''byes'', JInt 2), (lit ''wides'', JInt 3)])])
     = Inr (JInt 5)"
  "extract_extras (JObj [(lit ''extraDetail'', JObj [(lit ''byes'', JInt 0)])]) = Inr (JStr emdash)"
  "extract_extras (JObj []) = Inr (JStr emdash)"
  by (simp_all add: extract_extras_def dict_get_def dict_get_default_def lit_def extras_keys_def
      ebind_def)

text \<open>
  C7. On an innings-like dict \<open>extract_extras\<close> follows this order: an \<^verbatim>\<open>extras\<close> field
  that is a number or a string is returned as it is; otherwise an \<^verbatim>\<open>extraRuns\<close> field that
  is a number or a string is returned as it is; otherwise the breakdown, which is the
  \<^verbatim>\<open>extras\<close> field when that is a dict and the \<^verbatim>\<open>extraDetail\<close> field when not, is summed
  over \<^verbatim>\<open>byes\<close>, \<^verbatim>\<open>legByes\<close>, \<^verbatim>\<open>wides\<close>, \<^verbatim>\<open>noBalls\<close> and \<^verbatim>\<open>penalty\<close>, a missing
  sub-field counting 0, and the sum is returned when it is greater than 0; otherwise the
  result is the em dash. The sum is written out for integer sub-fields; for any
  sub-fields it is what the loop \<open>sum_extras\<close> returns. The four examples of the
  specification give 7, 5, the em dash and the em dash.
\<close>

theorem extract_extras_order:
  "(is_scalar (dict_get kvs (lit ''extras'')) \<longrightarrow>
      extract_extras (JObj kvs) = Inr (dict_get kvs (lit ''extras'')))
   \<and> (\<not> is_scalar (dict_get kvs (lit ''extras'')) \<and> is_scalar (dict_get kvs (lit ''extraRuns'')) \<longrightarrow>
      extract_extras (JObj kvs) = Inr (dict_get kvs (lit ''extraRuns'')))
   \<and> (\<not> is_scalar (dict_get kvs (lit ''extras'')) \<and> \<not> is_scalar (dict_get kvs (lit ''extraRuns'')) \<longrightarrow>
        (\<forall>ed. (dict_get kvs (lit ''extras'') = JObj ed
               \<or> \<not> is_dict (dict_get kvs (lit ''extras'')) \<and> dict_get kvs (lit ''extraDetail'') = JObj ed) \<longrightarrow>
           (\<forall>tot. sum_extras ed extras_keys (NInt 0) = Inr tot \<longrightarrow>
              extract_extras (JObj kvs) = Inr (if num_pos tot then json_of_num tot else JStr emdash))
         \<and> ((\<forall>k \<in> set extras_keys. \<forall>f. dict_get ed k \<noteq> JFloat f) \<longrightarrow>
              extract_extras (JObj kvs)
                = Inr (let s = extras_part ed (lit ''byes'') + extras_part ed (lit ''legByes'')
                             + extras_part ed (lit ''wides'') + extras_part ed (lit ''noBalls'')
                             + extras_part ed (lit ''penalty'')
                       in if 0 < s then JInt s else JStr emdash)))
      \<and> (\<not> is_dict (dict_get kvs (lit ''extras'')) \<and> \<not> is_dict (dict_get kvs (lit ''extraDetail'')) \<longrightarrow>
           extract_extras (JObj kvs) = Inr (JStr emdash)))
   \<and> extract_extras (JObj [(lit ''extras'', JInt 7)]) = Inr (JInt 7)
   \<and> extract_extras (JObj [(lit ''extraDetail'', JObj [(lit ''byes'', JInt 2), (lit ''wides'', JInt 3)])])
       = Inr (JInt 5)
   \<and> extract_extras (JObj [(lit ''extraDetail'', JObj [(lit ''byes'', JInt 0)])]) = Inr (JStr emdash)
   \<and> extract_extras (JObj []) = Inr (JStr emdash)"
proof -
  have ints: "extract_extras (JObj kvs)
                = Inr (let s = extras_part ed (lit ''byes'') + extras_part ed (lit ''legByes'')
                             + extras_part ed (lit ''wides'') + extras_part ed (lit ''noBalls'')
                             + extras_part ed (lit ''penalty'')
                       in if 0 < s then JInt s else JStr emdash)"
    if run: "extract_extras (JObj kvs)
               = ebind (sum_extras ed extras_keys (NInt 0)) (\<lambda>tot.
                   Inr (if num_pos tot then json_of_num tot else JStr emdash))"
      and nofloat: "\<forall>k \<in> set extras_keys. \<forall>f. dict_get ed k \<noteq> JFloat f" for ed
  proof -
    have "sum_extras ed extras_keys (NInt 0)
            = Inr (NInt (0 + sum_list (map (extras_part ed) extras_keys)))"
      using nofloat by (rule sum_extras_ints)
    with run show ?thesis
      by (simp add: ebind_def extras_keys_def Let_def)
  qed
  have any: "extract_extras (JObj kvs) = Inr (if num_pos tot then json_of_num tot else JStr emdash)"
    if run: "extract_extras (JObj kvs)
               = ebind (sum_extras ed extras_keys (NInt 0)) (\<lambda>tot.
                   Inr (if num_pos tot then json_of_num tot else JStr emdash))"
      and "sum_extras ed extras_keys (NInt 0) = Inr tot" for ed tot
    using that by (simp add: ebind_def)
  show ?thesis
    using extract_extras_priority [of kvs] extract_extras_examples ints any
    by (intro conjI impI allI) blast+
qed

text \<open>A record whose \<^verbatim>\<open>extras\<close> is null and whose \<^verbatim>\<open>extraDetail\<close> has one wide and four
  leg byes.\<close>

theorem extract_extras_order_witness:
  "extract_extras (JObj [(lit ''extras'', JNull),
                         (lit ''extraDetail'', JObj [(lit ''wides'', JInt 1), (lit ''legByes'', JInt 4)])])
     = Inr (JInt 5)"
  using extract_extras_order
    [of "[(lit ''extras'', JNull),
          (lit ''extraDetail'', JObj [(lit ''wides'', JInt 1), (lit ''legByes'', JInt 4)])]"]
  by (simp add: dict_get_def dict_get_default_def lit_def extras_keys_def extras_part_def)

subsection \<open>The format classifier\<close>

lemma py_or_dict: "py_or (JObj kvs) (JObj []) = JObj kvs"
  by (simp add: py_or_def)

lemma py_or_falsy: "\<not> truthy x \<Longrightarrow> py_or x y = y"
  by (simp add: py_or_def)

lemma py_or_truthy: "truthy x \<Longrightarrow> py_or x y = x"
  by (simp add: py_or_def)

lemma dict_get_empty: "dict_get [] k = JNull"
  by (simp add: dict_get_def dict_get_default_def)

lemma tag_step:
  "(case format_tag B (dict_get kvs k) of
      Some t \<Rightarrow> Inr t
    | None \<Rightarrow> Inr (first_tag B kvs ks fallback))
   = Inr (first_tag B kvs (k # ks) fallback)"
  by (cases "dict_get kvs k") (simp_all add: format_tag_def Let_def)

lemma guess_loop_first_tag:
  "guess_loop B (JObj kvs) ks fallback = Inr (first_tag B kvs ks fallback)"
proof (induction ks)
  case Nil
  then show ?case by simp
next
  case (Cons k ks)
  have "guess_loop B (JObj kvs) (k # ks) fallback
          = (case format_tag B (dict_get kvs k) of
               Some t \<Rightarrow> Inr t
             | None \<Rightarrow> Inr (first_tag B kvs ks fallback))"
    by (simp add: py_or_dict ebind_def Cons.IH split: option.split)
  then show ?case
    by (simp only: tag_step)
qed

lemma guess_format_first_tag:
  "guess_format B (JObj kvs) fallback = Inr (first_tag B kvs format_fields fallback)"
proof -
  have "guess_format B (JObj kvs) fallback
          = (case format_tag B (dict_get kvs (lit ''matchFormat'')) of
               Some t \<Rightarrow> Inr t
             | None \<Rightarrow> Inr (first_tag B kvs
                  [lit ''matchDesc'', lit ''stateTitle'', lit ''seriesName''] fallback))"
    unfolding guess_format_def py_or_dict guess_loop_first_tag
    by (simp add: ebind_def split: option.split del: first_tag.simps)
  then show ?thesis
    by (simp only: tag_step format_fields_def)
qed

lemma first_tag_nothing: "first_tag B [] ks fallback = fallback"
  by (induction ks) (simp_all add: dict_get_empty)

lemma guess_loop_falsy:
  "\<not> truthy info \<Longrightarrow> guess_loop B info ks fallback = guess_loop B (JObj []) ks fallback"
  by (induction ks) (simp_all add: py_or_def ebind_def split: option.split)

lemma guess_format_falsy:
  assumes "\<not> truthy info"
  shows "guess_format B info fallback = Inr fallback"
proof -
  have "guess_format B info fallback = guess_format B (JObj []) fallback"
    unfolding guess_format_def guess_loop_falsy [OF assms] py_or_falsy [OF assms]
    by (simp add: py_or_def)
  then show ?thesis
    by (simp add: guess_format_first_tag first_tag_nothing)
qed

lemma guess_format_example:
  "guess_format (ascii_builtins R)
     (JObj [(lit ''matchFormat'', JStr (lit ''ODI one-dayer'')),
            (lit ''matchDesc'', JStr (lit ''T20 Blast''))]) (lit ''UNKNOWN'') = Inr (lit ''ODI'')"
  by (simp add: guess_format_first_tag format_fields_def dict_get_def dict_get_default_def
      lit_def ascii_builtins_def ascii_upper_def)

lemma first_tag_no_strings:
  "\<forall>k \<in> set ks. \<forall>s. dict_get kvs k \<noteq> JStr s \<Longrightarrow> first_tag B kvs ks fallback = fallback"
proof (induction ks)
  case Nil
  then show ?case by simp
next
  case (Cons k ks)
  then show ?case
    by (cases "dict_get kvs k") simp_all
qed

text \<open>
  C4. On a matchInfo dict \<open>guess_format\<close> computes what the ordered fallback of the
  specification computes (\<open>first_tag\<close> over \<^verbatim>\<open>matchFormat\<close>, \<^verbatim>\<open>matchDesc\<close>,
  \<^verbatim>\<open>stateTitle\<close>, \<^verbatim>\<open>seriesName\<close>) and raises nothing. A \<^verbatim>\<open>matchFormat\<close> that is a string
  whose upper-case form contains \<^verbatim>\<open>TEST\<close>, \<^verbatim>\<open>ODI\<close> or \<^verbatim>\<open>T20\<close> decides at once, whatever
  the other fields hold; fields that are not strings are skipped, and when no field is a
  string the result is the fallback, \<^verbatim>\<open>UNKNOWN\<close>. The document with
  \<^verbatim>\<open>matchFormat = "ODI one-dayer"\<close> and \<^verbatim>\<open>matchDesc = "T20 Blast"\<close> classifies as ODI.
\<close>

theorem guess_format_ordered:
  "guess_format B (JObj kvs) fallback = Inr (first_tag B kvs format_fields fallback)
   \<and> (\<forall>s. dict_get kvs (lit ''matchFormat'') = JStr s \<and> str_in (lit ''TEST'') (upper B s) \<longrightarrow>
         guess_format B (JObj kvs) fallback = Inr (lit ''TEST''))
   \<and> (\<forall>s. dict_get kvs (lit ''matchFormat'') = JStr s \<and> \<not> str_in (lit ''TEST'') (upper B s)
           \<and> str_in (lit ''ODI'') (upper B s) \<longrightarrow>
         guess_format B (JObj kvs) fallback = Inr (lit ''ODI''))
   \<and> (\<forall>s. dict_get kvs (lit ''matchFormat'') = JStr s \<and> \<not> str_in (lit ''TEST'') (upper B s)
           \<and> \<not> str_in (lit ''ODI'') (upper B s) \<and> str_in (lit ''T20'') (upper B s) \<longrightarrow>
         guess_format B (JObj kvs) fallback = Inr (lit ''T20''))
   \<and> ((\<forall>k \<in> set format_fields. \<forall>s. dict_get kvs k \<noteq> JStr s) \<longrightarrow>
         guess_format B (JObj kvs) fallback = Inr fallback)
   \<and> guess_format (ascii_builtins R)
        (JObj [(lit ''matchFormat'', JStr (lit ''ODI one-dayer'')),
               (lit ''matchDesc'', JStr (lit ''T20 Blast''))]) (lit ''UNKNOWN'') = Inr (lit ''ODI'')"
proof -
  note run = guess_format_first_tag [of B kvs fallback]
  have first: "first_tag B kvs format_fields fallback
                 = (if str_in (lit ''TEST'') (upper B s) then lit ''TEST''
                    else if str_in (lit ''ODI'') (upper B s) then lit ''ODI''
                    else if str_in (lit ''T20'') (upper B s) then lit ''T20''
                    else first_tag B kvs [lit ''matchDesc'', lit ''stateTitle'', lit ''seriesName'']
                           fallback)"
    if "dict_get kvs (lit ''matchFormat'') = JStr s" for s
    using that by (simp add: format_fields_def del: first_tag.simps(2))
      (simp add: first_tag.simps(2) [of B kvs "lit ''matchFormat''"])
  have none: "first_tag B kvs format_fields fallback = fallback"
    if "\<forall>k \<in> set format_fields. \<forall>s. dict_get kvs k \<noteq> JStr s"
    using that by (rule first_tag_no_strings)
  show ?thesis
    using run first none guess_format_example [of R]
    by (intro conjI allI impI) auto
qed

text \<open>A document whose \<^verbatim>\<open>matchFormat\<close> is a number and whose \<^verbatim>\<open>matchDesc\<close> names the
  format in lower case.\<close>

theorem guess_format_ordered_witness:
  "guess_format (ascii_builtins (\<lambda>v. []))
     (JObj [(lit ''matchFormat'', JInt 5), (lit ''matchDesc'', JStr (lit ''2nd odi''))])
     (lit ''UNKNOWN'') = Inr (lit ''ODI'')"
  using guess_format_ordered
    [of "ascii_builtins (\<lambda>v. [])"
        "[(lit ''matchFormat'', JInt 5), (lit ''matchDesc'', JStr (lit ''2nd odi''))]"
        "lit ''UNKNOWN''"]
  by (simp add: format_fields_def dict_get_def dict_get_default_def lit_def ascii_builtins_def
      ascii_upper_def)

subsection \<open>The overs conversion\<close>

lemma str_in_point: "str_in (lit ''.'') s \<longleftrightarrow> 46 \<in> set s"
  by (induction s) (auto simp: lit_def)

lemma split_on_no_sep: "sep \<notin> set s \<Longrightarrow> split_on sep s = [s]"
  by (induction s) auto

lemma split_on_once:
  "sep \<notin> set a \<Longrightarrow> sep \<notin> set b \<Longrightarrow> split_on sep (a @ sep # b) = [a, b]"
  by (induction a) (auto simp: split_on_no_sep)

lemma length_split_on: "length (split_on sep s) = Suc (length (filter (\<lambda>c. c = sep) s))"
  by (induction s) (auto split: list.splits)

lemma overs_try_balls:
  assumes "46 \<notin> set ov" and "46 \<notin> set b"
  shows "overs_try B (ov @ 46 # b)
           = (case float_of_str B ov of
                None \<Rightarrow> None
              | Some x \<Rightarrow>
                  (case int_of_str B b of
                     None \<Rightarrow> None
                   | Some n \<Rightarrow>
                       (case int_truediv n 6 of Inl e \<Rightarrow> None | Inr y \<Rightarrow> Some (float_add x y))))"
  using assms by (simp add: overs_try_def str_in_point split_on_once)

lemma overs_try_plain: "46 \<notin> set s \<Longrightarrow> overs_try B s = float_of_str B s"
  by (simp add: overs_try_def str_in_point)

lemma overs_try_many_points:
  assumes "1 < length (filter (\<lambda>c. c = 46) s)"
  shows "overs_try B s = None"
proof -
  from assms have "2 < length (split_on 46 s)"
    by (simp add: length_split_on)
  then obtain p ps where "split_on 46 s = p # ps" and "1 < length ps"
    by (cases "split_on 46 s") auto
  moreover from this obtain q qs where "ps = q # qs" and "0 < length qs"
    by (cases ps) auto
  moreover from this obtain r rest where "qs = r # rest"
    by (cases qs) auto
  ultimately have "split_on 46 s = p # q # r # rest"
    by simp
  moreover have "filter (\<lambda>c. c = 46) s = []" if "46 \<notin> set s"
    using that by (induction s) auto
  with assms have "46 \<in> set s"
    by (cases "46 \<in> set s") simp_all
  ultimately show ?thesis
    by (simp add: overs_try_def str_in_point)
qed

text \<open>Roundings that the examples need; each number is a double or is rounded to one.\<close>

lemma round_double_small:
  "round_double 3 = Fin 3"
  "round_double 4 = Fin 4"
  "round_double 7 = Fin 7"
  "round_double 12 = Fin 12"
  "round_double 20 = Fin 20"
  "round_double (1 / 2) = Fin (1 / 2)"
  "round_double (25 / 2) = Fin (25 / 2)"
  by code_simp+

lemma round_double_two_thirds:
  "round_double (2 / 3) = Fin (6004799503160661 / 9007199254740992)"
  by code_simp

lemma round_double_seven_two_thirds:
  "round_double (7 + 6004799503160661 / 9007199254740992)
     = Fin (8631899285793451 / 1125899906842624)"
  by code_simp

text \<open>An integer of magnitude at most \<open>2^53\<close> is a double: rounding leaves it as it is.\<close>

lemma bitlen_bounds: "0 < a \<Longrightarrow> 2 ^ (bitlen a - 1) \<le> a \<and> a < 2 ^ bitlen a"
proof (induction a rule: bitlen.induct)
  case (1 a)
  show ?case
  proof (cases "a div 2 \<le> 0")
    case True
    with "1.prems" have "a = 1"
      by presburger
    then show ?thesis
      by (simp add: bitlen.simps)
  next
    case False
    with "1.prems" "1.IH" have IH: "2 ^ (bitlen (a div 2) - 1) \<le> a div 2" "a div 2 < 2 ^ bitlen (a div 2)"
      by simp_all
    from False have pos: "0 < bitlen (a div 2)"
      by (simp add: bitlen.simps [of "a div 2"])
    have len: "bitlen a = Suc (bitlen (a div 2))"
      using "1.prems" by (simp add: bitlen.simps [of a])
    from pos have "(2::int) ^ bitlen (a div 2) = 2 * 2 ^ (bitlen (a div 2) - 1)"
      by (cases "bitlen (a div 2)") simp_all
    with IH have "2 ^ bitlen (a div 2) \<le> 2 * (a div 2)" "2 * (a div 2) + 2 \<le> 2 * 2 ^ bitlen (a div 2)"
      by simp_all
    moreover have "2 * (a div 2) \<le> a" "a < 2 * (a div 2) + 2"
      by presburger+
    ultimately show ?thesis
      by (simp add: len)
  qed
qed

lemma round_half_even_int: "round_half_even (of_int k) = k"
  by (simp add: round_half_even_def)

lemma round_double_pos_int:
  assumes "0 < n" and "n \<le> 2 ^ 53"
  shows "round_double (of_int n) = Fin (of_int n)"
proof -
  let ?L = "bitlen n"
  from bitlen_bounds [OF assms(1)] have lo: "2 ^ (?L - 1) \<le> n" and hi: "n < 2 ^ ?L"
    by simp_all
  from assms(1) have Lpos: "0 < ?L"
    by (simp add: bitlen.simps [of n])
  from lo assms(2) have "(2::int) ^ (?L - 1) \<le> 2 ^ 53"
    by linarith
  then have L54: "?L - 1 \<le> 53"
    by (intro power_le_imp_le_exp [where a = "2::int"]) simp_all
  have one: "(1::rat) \<le> of_int n"
    using assms(1) by simp
  then have log: "ilog2 (of_int n) = int ?L - 1"
    by (simp add: ilog2_def)
  have e: "max (ilog2 \<bar>of_int n\<bar>) (- 1022) = int ?L - 1"
    using assms(1) log Lpos by simp
  show ?thesis
  proof (cases "?L - 1 = 53")
    case True
    with lo assms(2) have n: "n = 2 ^ 53"
      by simp
    from True Lpos have "int ?L - 1 = 53"
      by linarith
    with e have e53: "max (ilog2 \<bar>of_int n\<bar>) (- 1022) = 53"
      by simp
    have "round_half_even (\<bar>of_int n\<bar> / pow2 (53 - 52)) = 2 ^ 52"
    proof -
      have "\<bar>of_int n\<bar> / pow2 (53 - 52) = (of_int (2 ^ 52) :: rat)"
        by (simp add: n pow2_def)
      then show ?thesis
        by (simp only: round_half_even_int)
    qed
    then show ?thesis
      using assms(1) e53 by (simp add: round_double_def Let_def n pow2_def)
  next
    case False
    with L54 have small: "?L - 1 \<le> 52"
      by linarith
    define k where "k = 53 - ?L"
    from small Lpos have k: "int ?L - 1 - 52 = - int k" "?L + k = 53"
      by (simp_all add: k_def)
    have u: "pow2 (int ?L - 1 - 52) = 1 / 2 ^ k"
      unfolding k(1) by (simp add: pow2_def)
    have "\<bar>of_int n\<bar> / pow2 (int ?L - 1 - 52) = (of_int (n * 2 ^ k) :: rat)"
      unfolding u using assms(1) by simp
    then have m: "round_half_even (\<bar>of_int n\<bar> / pow2 (int ?L - 1 - 52)) = n * 2 ^ k"
      by (simp only: round_half_even_int)
    have restore: "(of_int (n * 2 ^ k) :: rat) * pow2 (int ?L - 1 - 52) = of_int n"
      unfolding u by simp
    from small Lpos have noover: "\<not> (1024 \<le> int ?L - 1)" "int ?L - 1 \<noteq> 1023"
      by linarith+
    have "round_double (of_int n)
            = (if (of_int n :: rat) = 0 then Fin 0
               else if 1024 \<le> int ?L - 1 \<or> int ?L - 1 = 1023 \<and> 2 ^ 53 \<le> n * 2 ^ k
                 then (if (0::rat) < of_int n then PInf else NInf)
                 else Fin (if (0::rat) < of_int n then of_int n else - of_int n))"
      unfolding round_double_def Let_def e m restore by (rule refl)
    with assms(1) noover show ?thesis
      by simp
  qed
qed

lemma round_double_minus:
  "0 < q \<Longrightarrow> round_double q = Fin v \<Longrightarrow> round_double (- q) = Fin (- v)"
  by (auto simp: round_double_def Let_def split: if_splits)

lemma round_double_int:
  assumes "\<bar>n\<bar> \<le> 2 ^ 53"
  shows "round_double (of_int n) = Fin (of_int n)"
proof -
  consider "n = 0" | "0 < n" | "n < 0"
    by linarith
  then show ?thesis
  proof cases
    case 1
    then show ?thesis
      by (simp add: round_double_def)
  next
    case 2
    with assms show ?thesis
      by (intro round_double_pos_int) simp_all
  next
    case 3
    with assms have "round_double (of_int (- n)) = Fin (of_int (- n))"
      by (intro round_double_pos_int) simp_all
    moreover from 3 have "(0::rat) < of_int (- n)"
      by simp
    ultimately have "round_double (- of_int (- n)) = Fin (- of_int (- n))"
      by (rule round_double_minus [rotated])
    then show ?thesis
      by simp
  qed
qed

lemma dbl_limit_above_ints: "\<bar>n\<bar> \<le> 2 ^ 53 \<Longrightarrow> \<bar>(of_int n :: rat)\<bar> < dbl_limit"
proof -
  assume "\<bar>n\<bar> \<le> 2 ^ 53"
  then have "(of_int \<bar>n\<bar> :: rat) \<le> of_int (2 ^ 53)"
    by (simp only: of_int_le_iff)
  then show ?thesis
    by (simp add: dbl_limit_def)
qed

lemma float_of_int_in_range:
  "\<bar>of_int n\<bar> < dbl_limit \<Longrightarrow> float_of_int n = Inr (round_double (of_int n))"
  by (simp add: float_of_int_def)

lemma int_truediv_six:
  assumes "\<bar>of_int n\<bar> < dbl_limit"
  shows "int_truediv n 6 = Inr (float_div (round_double (of_int n)) 6)"
  using assms by (simp add: int_truediv_def float_of_int_def ebind_def)

lemma ascii_float_twelve: "ascii_float (lit ''12'') = Some (Fin 12)"
  by (simp add: lit_def ascii_float_def strip_def is_space_def take_sign_def ascii_lower_def
      float_number_def cut_at_def mantissa_def digits_val_def is_digit_def round_double_small)

lemma ascii_int_three: "ascii_int (lit ''3'') = Some 3"
  by (simp add: lit_def ascii_int_def strip_def is_space_def take_sign_def digits_val_def
      is_digit_def)

lemma overs_to_float_twelve_three:
  "overs_to_float (ascii_builtins R) (JStr (lit ''12.3'')) = Inr (Fin (25 / 2))"
proof -
  have shape: "lit ''12.3'' = lit ''12'' @ 46 # lit ''3''" "46 \<notin> set (lit ''12'')" "46 \<notin> set (lit ''3'')"
    by (simp_all add: lit_def)
  have "int_truediv 3 6 = Inr (Fin (1 / 2))"
    by (simp add: int_truediv_def float_of_int_def ebind_def float_div_def dbl_limit_def
        round_double_small)
  moreover have "float_add (Fin 12) (Fin (1 / 2)) = Fin (25 / 2)"
    by (simp add: round_double_small)
  ultimately have "overs_try (ascii_builtins R) (lit ''12'' @ 46 # lit ''3'') = Some (Fin (25 / 2))"
    using shape(2,3) ascii_float_twelve ascii_int_three
    by (simp add: overs_try_balls ascii_builtins_def)
  then show ?thesis
    by (simp add: overs_to_float_def shape(1))
qed

lemma overs_to_float_twenty: "overs_to_float B (JInt 20) = Inr (Fin 20)"
  by (simp add: overs_to_float_def float_of_int_def dbl_limit_def round_double_small)

text \<open>
  C5. \<open>overs_to_float\<close> maps \<^verbatim>\<open>None\<close> to \<open>-1.0\<close>, a float to itself, an integer to
  the double nearest to it (\<^verbatim>\<open>float(n)\<close>, defined when a double can hold it, and the
  integer itself when its magnitude is at most \<open>2^53\<close>), a string
  \<^verbatim>\<open>o.b\<close> with one point, whose part \<^verbatim>\<open>o\<close> is a float and whose part \<^verbatim>\<open>b\<close> is an
  integer, to \<^verbatim>\<open>float(o) + int(b) / 6.0\<close> in the arithmetic of doubles, a string without
  a point that is a float to that float, and every string that cannot be parsed so (no
  float, no integer after the point, or more than one point) to \<open>-1.0\<close>. In particular
  \<^verbatim>\<open>"12.3"\<close> gives \<open>12.5\<close> and the integer 20 gives \<open>20.0\<close>.
\<close>

theorem overs_to_float_rule:
  "overs_to_float B JNull = Inr (Fin (- 1))
   \<and> (\<bar>of_int n\<bar> < dbl_limit \<longrightarrow> overs_to_float B (JInt n) = Inr (round_double (of_int n)))
   \<and> (\<bar>n\<bar> \<le> 2 ^ 53 \<longrightarrow> overs_to_float B (JInt n) = Inr (Fin (of_int n)))
   \<and> overs_to_float B (JFloat f) = Inr f
   \<and> (46 \<notin> set ov \<and> 46 \<notin> set b \<and> float_of_str B ov = Some x \<and> int_of_str B b = Some m
        \<and> \<bar>of_int m\<bar> < dbl_limit \<longrightarrow>
      overs_to_float B (JStr (ov @ 46 # b))
        = Inr (float_add x (float_div (round_double (of_int m)) 6)))
   \<and> (46 \<notin> set s \<longrightarrow>
      overs_to_float B (JStr s) = Inr (case float_of_str B s of None \<Rightarrow> Fin (- 1) | Some y \<Rightarrow> y))
   \<and> (46 \<notin> set ov \<and> 46 \<notin> set b \<and> (float_of_str B ov = None \<or> int_of_str B b = None) \<longrightarrow>
      overs_to_float B (JStr (ov @ 46 # b)) = Inr (Fin (- 1)))
   \<and> (1 < length (filter (\<lambda>c. c = 46) s) \<longrightarrow> overs_to_float B (JStr s) = Inr (Fin (- 1)))
   \<and> overs_to_float (ascii_builtins R) (JStr (lit ''12.3'')) = Inr (Fin (25 / 2))
   \<and> overs_to_float B (JInt 20) = Inr (Fin 20)"
proof -
  have none: "overs_to_float B JNull = Inr (Fin (- 1))"
    by (simp add: overs_to_float_def)
  have int: "\<bar>of_int n\<bar> < dbl_limit \<longrightarrow> overs_to_float B (JInt n) = Inr (round_double (of_int n))"
    by (simp add: overs_to_float_def float_of_int_def)
  have exact: "\<bar>n\<bar> \<le> 2 ^ 53 \<longrightarrow> overs_to_float B (JInt n) = Inr (Fin (of_int n))"
  proof
    assume small: "\<bar>n\<bar> \<le> 2 ^ 53"
    from dbl_limit_above_ints [OF small]
    have "overs_to_float B (JInt n) = Inr (round_double (of_int n))"
      by (simp add: overs_to_float_def float_of_int_def)
    with round_double_int [OF small] show "overs_to_float B (JInt n) = Inr (Fin (of_int n))"
      by simp
  qed
  have flt: "overs_to_float B (JFloat f) = Inr f"
    by (simp add: overs_to_float_def)
  have balls: "46 \<notin> set ov \<and> 46 \<notin> set b \<and> float_of_str B ov = Some x \<and> int_of_str B b = Some m
        \<and> \<bar>of_int m\<bar> < dbl_limit \<longrightarrow>
      overs_to_float B (JStr (ov @ 46 # b))
        = Inr (float_add x (float_div (round_double (of_int m)) 6))"
    by (simp add: overs_to_float_def overs_try_balls int_truediv_six)
  have plain: "46 \<notin> set s \<longrightarrow>
      overs_to_float B (JStr s) = Inr (case float_of_str B s of None \<Rightarrow> Fin (- 1) | Some y \<Rightarrow> y)"
    by (simp add: overs_to_float_def overs_try_plain split: option.split)
  have bad: "46 \<notin> set ov \<and> 46 \<notin> set b \<and> (float_of_str B ov = None \<or> int_of_str B b = None) \<longrightarrow>
      overs_to_float B (JStr (ov @ 46 # b)) = Inr (Fin (- 1))"
    by (auto simp: overs_to_float_def overs_try_balls split: option.split)
  have many: "1 < length (filter (\<lambda>c. c = 46) s) \<longrightarrow> overs_to_float B (JStr s) = Inr (Fin (- 1))"
    by (simp add: overs_to_float_def overs_try_many_points)
  from none int exact flt balls plain bad many overs_to_float_twelve_three [of R]
    overs_to_float_twenty [of B]
  show ?thesis
    by (intro conjI) assumption+
qed

text \<open>The string \<^verbatim>\<open>"7.4"\<close>, seven overs and four balls: \<open>4 / 6.0\<close> is rounded to a
  double, and so is the sum.\<close>

theorem overs_to_float_rule_witness:
  "overs_to_float (ascii_builtins (\<lambda>v. [])) (JStr (lit ''7.4''))
     = Inr (Fin (8631899285793451 / 1125899906842624))"
proof -
  let ?B = "ascii_builtins (\<lambda>v. [])"
  have ov: "float_of_str ?B (lit ''7'') = Some (Fin 7)"
    by (simp add: lit_def ascii_builtins_def ascii_float_def strip_def is_space_def take_sign_def
        ascii_lower_def float_number_def cut_at_def mantissa_def digits_val_def is_digit_def
        round_double_small)
  have b: "int_of_str ?B (lit ''4'') = Some 4"
    by (simp add: lit_def ascii_builtins_def ascii_int_def strip_def is_space_def take_sign_def
        digits_val_def is_digit_def)
  have range: "\<bar>of_int 4\<bar> < dbl_limit"
    by (simp add: dbl_limit_def)
  have shape: "lit ''7.4'' = lit ''7'' @ 46 # lit ''4''" "46 \<notin> set (lit ''7'')" "46 \<notin> set (lit ''4'')"
    by (simp_all add: lit_def)
  have quotient: "float_div (round_double (of_int 4)) 6 = Fin (6004799503160661 / 9007199254740992)"
    using round_double_two_thirds by (simp add: round_double_small float_div_def)
  have sum: "float_add (Fin 7) (Fin (6004799503160661 / 9007199254740992))
               = Fin (8631899285793451 / 1125899906842624)"
    by (simp only: float_add.simps round_double_seven_two_thirds)
  note rule = overs_to_float_rule [of ?B 0 "Fin 0" "lit ''7''" "lit ''4''" "Fin 7" 4 "[]" "\<lambda>v. []"]
  note balls = conjunct1 [OF conjunct2 [OF conjunct2 [OF conjunct2 [OF conjunct2 [OF rule]]]]]
  from balls ov b range shape(2,3)
  have "overs_to_float ?B (JStr (lit ''7'' @ 46 # lit ''4''))
          = Inr (float_add (Fin 7) (float_div (round_double (of_int 4)) 6))"
    by (elim impE) (intro conjI, assumption+)
  then show ?thesis
    by (simp only: shape(1) quotient sum)
qed

subsection \<open>The innings selector\<close>

text \<open>Without NaN, \<open>float_less\<close> is a strict total order.\<close>

lemma float_less_trans: "float_less a b \<Longrightarrow> float_less b c \<Longrightarrow> float_less a c"
  by (cases a; cases b; cases c) auto

lemma float_less_not_less_trans:
  "float_less a b \<Longrightarrow> \<not> float_less c b \<Longrightarrow> b \<noteq> NaN \<Longrightarrow> c \<noteq> NaN \<Longrightarrow> float_less a c"
  by (cases a; cases b; cases c) auto

lemma float_less_irrefl: "\<not> float_less a a"
  by (cases a) auto

lemma set_insert_desc: "set (insert_desc x ys) = insert x (set ys)"
  by (induction ys) auto

lemma set_sort_desc: "set (sort_desc cands) = set cands"
  by (induction cands) (simp_all add: sort_desc_def set_insert_desc)

lemma length_insert_desc: "length (insert_desc x ys) = Suc (length ys)"
  by (induction ys) auto

lemma length_sort_desc: "length (sort_desc cands) = length cands"
  by (induction cands) (simp_all add: sort_desc_def length_insert_desc)

lemma sorted_insert_desc:
  assumes "sorted_wrt (\<lambda>a b. \<not> float_less (fst a) (fst b)) ys"
    and "fst x \<noteq> NaN" and "\<forall>y \<in> set ys. fst y \<noteq> NaN"
  shows "sorted_wrt (\<lambda>a b. \<not> float_less (fst a) (fst b)) (insert_desc x ys)"
  using assms
proof (induction ys)
  case Nil
  then show ?case by simp
next
  case (Cons y ys)
  show ?case
  proof (cases "float_less (fst x) (fst y)")
    case True
    have "\<not> float_less (fst y) (fst x)"
      using True float_less_trans float_less_irrefl by blast
    with True Cons show ?thesis
      by (auto simp: set_insert_desc)
  next
    case False
    have "\<not> float_less (fst x) (fst z)" if "z \<in> set ys" for z
    proof
      assume "float_less (fst x) (fst z)"
      moreover from Cons.prems that have "\<not> float_less (fst y) (fst z)" "fst z \<noteq> NaN" "fst y \<noteq> NaN"
        by auto
      ultimately have "float_less (fst x) (fst y)"
        by (rule float_less_not_less_trans)
      with False show False ..
    qed
    with False Cons.prems show ?thesis
      by auto
  qed
qed

lemma sorted_sort_desc:
  "\<forall>c \<in> set cands. fst c \<noteq> NaN \<Longrightarrow>
     sorted_wrt (\<lambda>a b. \<not> float_less (fst a) (fst b)) (sort_desc cands)"
proof (induction cands)
  case Nil
  then show ?case by (simp add: sort_desc_def)
next
  case (Cons x cands)
  then have "sorted_wrt (\<lambda>a b. \<not> float_less (fst a) (fst b)) (sort_desc cands)"
    by simp
  moreover from Cons.prems have "fst x \<noteq> NaN" "\<forall>y \<in> set (sort_desc cands). fst y \<noteq> NaN"
    by (simp_all add: set_sort_desc)
  ultimately have "sorted_wrt (\<lambda>a b. \<not> float_less (fst a) (fst b)) (insert_desc x (sort_desc cands))"
    by (rule sorted_insert_desc)
  then show ?case
    by (simp add: sort_desc_def)
qed

text \<open>The first element of the sorted list is the first candidate, in the order of
  enumeration, among those whose key is greatest.\<close>

lemma sort_desc_first:
  assumes "cands \<noteq> []" and "\<forall>c \<in> set cands. fst c \<noteq> NaN"
  shows "\<exists>pre c post rest.
           cands = pre @ c # post \<and> sort_desc cands = c # rest
         \<and> (\<forall>p \<in> set pre. float_less (fst p) (fst c))
         \<and> (\<forall>q \<in> set post. \<not> float_less (fst c) (fst q))"
  using assms
proof (induction cands)
  case Nil
  then show ?case by simp
next
  case (Cons x cands)
  show ?case
  proof (cases "cands = []")
    case True
    then have "x # cands = [] @ x # []" "sort_desc (x # cands) = x # []"
      by (simp_all add: sort_desc_def)
    then show ?thesis
      by (metis empty_iff list.set(1))
  next
    case False
    from Cons.prems have "\<forall>c \<in> set cands. fst c \<noteq> NaN"
      by simp
    from Cons.IH [OF False this] obtain pre c post rest where
      split: "cands = pre @ c # post" and first: "sort_desc cands = c # rest"
      and before: "\<forall>p \<in> set pre. float_less (fst p) (fst c)"
      and after: "\<forall>q \<in> set post. \<not> float_less (fst c) (fst q)"
      by blast
    have step: "sort_desc (x # cands) = insert_desc x (c # rest)"
      using first by (simp add: sort_desc_def)
    show ?thesis
    proof (cases "float_less (fst x) (fst c)")
      case True
      with step have "sort_desc (x # cands) = c # insert_desc x rest"
        by simp
      moreover from split have "x # cands = (x # pre) @ c # post"
        by simp
      moreover from True before have "\<forall>p \<in> set (x # pre). float_less (fst p) (fst c)"
        by simp
      ultimately show ?thesis
        using after by blast
    next
      case False
      with step have head: "sort_desc (x # cands) = x # c # rest"
        by simp
      have nan: "fst c \<noteq> NaN" "\<forall>q \<in> set cands. fst q \<noteq> NaN"
        using Cons.prems split by auto
      have "\<not> float_less (fst x) (fst q)" if "q \<in> set cands" for q
      proof
        assume less: "float_less (fst x) (fst q)"
        from that split consider "q \<in> set pre" | "q = c" | "q \<in> set post"
          by auto
        then have "float_less (fst x) (fst c)"
        proof cases
          case 1
          with before have "float_less (fst q) (fst c)" by blast
          with less show ?thesis by (rule float_less_trans)
        next
          case 2
          with less show ?thesis by simp
        next
          case 3
          with after have "\<not> float_less (fst c) (fst q)" by blast
          with less show ?thesis
            using nan that by (blast intro: float_less_not_less_trans)
        qed
        with False show False ..
      qed
      then have "\<forall>q \<in> set cands. \<not> float_less (fst x) (fst q)"
        by blast
      moreover have "x # cands = [] @ x # cands"
        by simp
      ultimately show ?thesis
        using head by (metis empty_iff list.set(1))
    qed
  qed
qed

text \<open>What the two loops append, and in which order.\<close>

lemma ebind_Inr: "ebind m f = Inr y \<Longrightarrow> \<exists>x. m = Inr x \<and> f x = Inr y"
  by (cases m) (simp_all add: ebind_def)

lemma attr_get_Inr: "attr_get v k = Inr x \<Longrightarrow> \<exists>kvs. v = JObj kvs \<and> x = dict_get kvs k"
  by (cases v) auto

lemma g_one: "g (JObj kvs) [k] JNull = dict_get kvs k"
  by (simp add: dict_get_def dict_get_default_def split: option.split)

lemma slot_cands_order:
  "slot_cands B slots acc = Inr cs \<Longrightarrow>
     map snd cs = map snd acc
        @ map (\<lambda>s. (Some (fst s), snd s)) (filter (\<lambda>s. truthy (snd s)) slots)"
proof (induction slots arbitrary: acc)
  case Nil
  then show ?case by simp
next
  case (Cons s slots)
  obtain bt inn where s: "s = (bt, inn)"
    by (cases s)
  show ?case
  proof (cases "truthy inn")
    case False
    with Cons s show ?thesis by simp
  next
    case True
    with Cons.prems s obtain ov k where
      "slot_cands B slots (acc @ [(k, Some bt, inn)]) = Inr cs"
      by (auto dest!: ebind_Inr)
    from Cons.IH [OF this] True s show ?thesis
      by simp
  qed
qed

lemma slot_cands_keys:
  assumes "slot_cands B slots acc = Inr cs"
    and "\<forall>c \<in> set acc. \<exists>kvs. snd (snd c) = JObj kvs
                \<and> overs_to_float B (dict_get kvs (lit ''overs'')) = Inr (fst c)"
  shows "\<forall>c \<in> set cs. \<exists>kvs. snd (snd c) = JObj kvs
                \<and> overs_to_float B (dict_get kvs (lit ''overs'')) = Inr (fst c)"
  using assms
proof (induction slots arbitrary: acc)
  case Nil
  then show ?case by simp
next
  case (Cons s slots)
  obtain bt inn where s: "s = (bt, inn)"
    by (cases s)
  show ?case
  proof (cases "truthy inn")
    case False
    with Cons s show ?thesis by simp
  next
    case True
    with Cons.prems(1) s obtain ov k where
      ov: "attr_get inn (lit ''overs'') = Inr ov" and k: "overs_to_float B ov = Inr k"
      and rest: "slot_cands B slots (acc @ [(k, Some bt, inn)]) = Inr cs"
      by (auto dest!: ebind_Inr)
    from ov obtain kvs where "inn = JObj kvs" "ov = dict_get kvs (lit ''overs'')"
      by (auto dest: attr_get_Inr)
    with k Cons.prems(2)
    have "\<forall>c \<in> set (acc @ [(k, Some bt, inn)]). \<exists>kvs. snd (snd c) = JObj kvs
                \<and> overs_to_float B (dict_get kvs (lit ''overs'')) = Inr (fst c)"
      by simp
    from Cons.IH [OF rest this] show ?thesis .
  qed
qed

lemma isl_cands_order:
  "isl_cands B t1s t2s xs acc = Inr cs \<Longrightarrow>
     map snd cs = map snd acc
        @ map (\<lambda>inn. (id_tag t1s t2s (g inn [lit ''batTeamId''] JNull), inn)) (filter is_dict xs)"
proof (induction xs arbitrary: acc)
  case Nil
  then show ?case by simp
next
  case (Cons inn xs)
  show ?case
  proof (cases "is_dict inn")
    case False
    with Cons.prems have "isl_cands B t1s t2s xs acc = Inr cs"
      by (cases inn) simp_all
    from Cons.IH [OF this] False show ?thesis
      by simp
  next
    case True
    then obtain kvs where inn: "inn = JObj kvs"
      by (cases inn) simp_all
    with Cons.prems obtain k where
      "isl_cands B t1s t2s xs
         (acc @ [(k, id_tag t1s t2s (dict_get kvs (lit ''batTeamId'')), inn)]) = Inr cs"
      by (auto simp: Let_def id_tag_def dest!: ebind_Inr)
    from Cons.IH [OF this] inn show ?thesis
      by (simp add: g_one del: g.simps)
  qed
qed

lemma isl_cands_keys:
  assumes "isl_cands B t1s t2s xs acc = Inr cs"
    and "\<forall>c \<in> set acc. \<exists>kvs. snd (snd c) = JObj kvs
                \<and> overs_to_float B (dict_get kvs (lit ''overs'')) = Inr (fst c)"
  shows "\<forall>c \<in> set cs. \<exists>kvs. snd (snd c) = JObj kvs
                \<and> overs_to_float B (dict_get kvs (lit ''overs'')) = Inr (fst c)"
  using assms
proof (induction xs arbitrary: acc)
  case Nil
  then show ?case by simp
next
  case (Cons inn xs)
  show ?case
  proof (cases "is_dict inn")
    case False
    with Cons.prems(1) have "isl_cands B t1s t2s xs acc = Inr cs"
      by (cases inn) simp_all
    from Cons.IH [OF this Cons.prems(2)] show ?thesis .
  next
    case True
    then obtain kvs where inn: "inn = JObj kvs"
      by (cases inn) simp_all
    with Cons.prems(1) obtain k bt where
      k: "overs_to_float B (dict_get kvs (lit ''overs'')) = Inr k"
      and rest: "isl_cands B t1s t2s xs (acc @ [(k, bt, inn)]) = Inr cs"
      by (auto simp: Let_def dest!: ebind_Inr)
    from k inn Cons.prems(2)
    have "\<forall>c \<in> set (acc @ [(k, bt, inn)]). \<exists>kvs. snd (snd c) = JObj kvs
                \<and> overs_to_float B (dict_get kvs (lit ''overs'')) = Inr (fst c)"
      by simp
    from Cons.IH [OF rest this] show ?thesis .
  qed
qed

lemma innings_cands_dict:
  "innings_cands B score t1s t2s = Inr cands \<Longrightarrow> \<exists>kvs. score = JObj kvs"
  by (auto simp: innings_cands_def Let_def dest!: ebind_Inr attr_get_Inr)

lemma innings_cands_order:
  assumes "innings_cands B score t1s t2s = Inr cands"
  shows "map snd cands = enumerated score t1s t2s"
proof -
  from assms obtain kvs where score: "score = JObj kvs"
    by (blast dest: innings_cands_dict)
  let ?slots = "[(t1s, py_or (g score [lit ''team1Score'', lit ''inngs2''] JNull) (JObj [])),
                 (t2s, py_or (g score [lit ''team2Score'', lit ''inngs2''] JNull) (JObj [])),
                 (t1s, py_or (g score [lit ''team1Score'', lit ''inngs1''] JNull) (JObj [])),
                 (t2s, py_or (g score [lit ''team2Score'', lit ''inngs1''] JNull) (JObj []))]"
  from assms score obtain c1 where
    slots: "slot_cands B ?slots [] = Inr c1"
    and isl: "(case dict_get kvs (lit ''inningsScoreList'') of
                 JArr xs \<Rightarrow> isl_cands B t1s t2s xs c1
               | _ \<Rightarrow> Inr c1) = Inr cands"
    by (auto simp: innings_cands_def Let_def simp del: slot_cands.simps g.simps dest!: ebind_Inr)
  have first: "map snd c1
                 = filter (\<lambda>c. truthy (snd c))
                     [(Some t1s, g score [lit ''team1Score'', lit ''inngs2''] JNull),
                      (Some t2s, g score [lit ''team2Score'', lit ''inngs2''] JNull),
                      (Some t1s, g score [lit ''team1Score'', lit ''inngs1''] JNull),
                      (Some t2s, g score [lit ''team2Score'', lit ''inngs1''] JNull)]"
    using slot_cands_order [OF slots] by (simp add: py_or_def del: g.simps)
  have second: "map snd cands
                  = map snd c1
                    @ (case dict_get kvs (lit ''inningsScoreList'') of
                         JArr xs \<Rightarrow>
                           map (\<lambda>inn. (id_tag t1s t2s (g inn [lit ''batTeamId''] JNull), inn))
                             (filter is_dict xs)
                       | _ \<Rightarrow> [])"
    using isl
    by (cases "dict_get kvs (lit ''inningsScoreList'')") (simp_all add: isl_cands_order del: g.simps)
  from first second score show ?thesis
    by (simp add: enumerated_def g_one del: g.simps)
qed

lemma innings_cands_keys:
  assumes "innings_cands B score t1s t2s = Inr cands"
  shows "\<forall>c \<in> set cands. \<exists>kvs. snd (snd c) = JObj kvs
                \<and> overs_to_float B (dict_get kvs (lit ''overs'')) = Inr (fst c)"
proof -
  from assms obtain slots c1 isl where
    slots: "slot_cands B slots [] = Inr c1"
    and isl: "(case isl of JArr xs \<Rightarrow> isl_cands B t1s t2s xs c1 | _ \<Rightarrow> Inr c1) = Inr cands"
    by (auto simp: innings_cands_def Let_def simp del: slot_cands.simps g.simps dest!: ebind_Inr)
  have one: "\<forall>c \<in> set c1. \<exists>kvs. snd (snd c) = JObj kvs
                \<and> overs_to_float B (dict_get kvs (lit ''overs'')) = Inr (fst c)"
    by (rule slot_cands_keys [OF slots]) simp
  show ?thesis
  proof (cases isl)
    case (JArr xs)
    with isl have "isl_cands B t1s t2s xs c1 = Inr cands"
      by simp
    from isl_cands_keys [OF this one] show ?thesis .
  qed (use isl one in simp_all)
qed

lemma first_sorted_no_nan:
  "\<forall>c \<in> set cands. fst c \<noteq> NaN \<Longrightarrow>
     first_sorted B cands = (case sort_desc cands of [] \<Rightarrow> Inl IndexError | c # rest \<Rightarrow> Inr c)"
  by (simp add: first_sorted_def list_ex_iff)

lemma select_innings_first:
  assumes "cands \<noteq> []" and "\<forall>c \<in> set cands. fst c \<noteq> NaN"
    and "\<forall>c \<in> set cands. is_dict (snd (snd c))"
  shows "\<exists>pre c post.
           cands = pre @ c # post
         \<and> (\<forall>p \<in> set pre. float_less (fst p) (fst c))
         \<and> (\<forall>q \<in> set post. \<not> float_less (fst c) (fst q))
         \<and> select_innings B cands t1s t2s
             = Inr (or_dash (fst (snd c)),
                    or_dash (Some (if fst (snd c) = Some t1s then t2s else t1s)),
                    snd (snd c))"
proof -
  from sort_desc_first [OF assms(1,2)] obtain pre c post rest where
    split: "cands = pre @ c # post" and first: "sort_desc cands = c # rest"
    and before: "\<forall>p \<in> set pre. float_less (fst p) (fst c)"
    and after: "\<forall>q \<in> set post. \<not> float_less (fst c) (fst q)"
    by blast
  obtain k bt inn where c: "c = (k, bt, inn)"
    by (cases c)
  from split assms(3) c obtain kvs where "inn = JObj kvs"
    by (cases inn) auto
  with first c assms(1) first_sorted_no_nan [OF assms(2), of B]
  have "select_innings B cands t1s t2s
          = Inr (or_dash (fst (snd c)),
                 or_dash (Some (if fst (snd c) = Some t1s then t2s else t1s)),
                 snd (snd c))"
    by (simp add: select_innings_def py_or_def ebind_def)
  with split before after show ?thesis
    by blast
qed

lemma first_slot_selected:
  assumes cands: "innings_cands B score t1s t2s = Inr cands"
    and slot: "g score [lit ''team1Score'', lit ''inngs2''] JNull = JObj r1" "r1 \<noteq> []"
    and key: "overs_to_float B (dict_get r1 (lit ''overs'')) = Inr k"
    and top: "\<forall>c \<in> set cands. fst c \<noteq> NaN \<and> \<not> float_less k (fst c)"
  shows "pick_current_innings B score t1s t2s = Inr (or_dash (Some t1s), or_dash (Some t2s), JObj r1)"
proof -
  from innings_cands_order [OF cands] slot
  obtain tail where "map snd cands = (Some t1s, JObj r1) # tail"
    by (simp add: enumerated_def del: g.simps)
  then obtain c1 rest where shape: "cands = c1 # rest" and c1: "snd c1 = (Some t1s, JObj r1)"
    by (cases cands) auto
  from innings_cands_keys [OF cands] shape c1 key have k: "fst c1 = k"
    by auto
  have dicts: "\<forall>c \<in> set cands. is_dict (snd (snd c))"
    using innings_cands_keys [OF cands] by fastforce
  from shape top have "cands \<noteq> []" "\<forall>c \<in> set cands. fst c \<noteq> NaN"
    by simp_all
  from select_innings_first [OF this dicts, of B t1s t2s] obtain pre c post where
    split: "cands = pre @ c # post"
    and before: "\<forall>p \<in> set pre. float_less (fst p) (fst c)"
    and result: "select_innings B cands t1s t2s
                   = Inr (or_dash (fst (snd c)),
                          or_dash (Some (if fst (snd c) = Some t1s then t2s else t1s)),
                          snd (snd c))"
    by blast
  have "pre = []"
  proof (rule ccontr)
    assume "pre \<noteq> []"
    with split shape have "c1 \<in> set pre"
      by (cases pre) auto
    with before k have "float_less k (fst c)"
      by auto
    moreover from split top have "\<not> float_less k (fst c)"
      by simp
    ultimately show False
      by simp
  qed
  with split shape have "c = c1"
    by simp
  with result c1 cands show ?thesis
    by (simp add: pick_current_innings_def ebind_def)
qed

text \<open>
  C3. When the two loops of \<open>pick_current_innings\<close> end with the candidate list
  \<open>cands\<close>: the candidates are, in this order, the innings slots team1-inngs2,
  team2-inngs2, team1-inngs1, team2-inngs1 that are present and then every dict of
  \<^verbatim>\<open>inningsScoreList\<close>, and the key of each candidate is \<open>overs_to_float\<close> of the
  \<^verbatim>\<open>overs\<close> of its record; when there is a candidate and no key is NaN the function returns
  the candidate that a stable sort into descending order of the keys puts first, which
  is the first one in the order of enumeration whose key no other exceeds; so when
  team1-inngs2 and team2-inngs2 are both present with the same key and no candidate has a
  greater one, the record of team1-inngs2 is returned, with team 1 batting and team 2
  bowling.
\<close>

theorem pick_current_innings_stable:
  assumes "innings_cands B score t1s t2s = Inr cands"
  shows "map snd cands = enumerated score t1s t2s
    \<and> (\<forall>c \<in> set cands. \<exists>kvs. snd (snd c) = JObj kvs
           \<and> overs_to_float B (dict_get kvs (lit ''overs'')) = Inr (fst c))
    \<and> (cands \<noteq> [] \<and> (\<forall>c \<in> set cands. fst c \<noteq> NaN) \<longrightarrow>
         (\<exists>pre c post.
            cands = pre @ c # post
          \<and> (\<forall>p \<in> set pre. float_less (fst p) (fst c))
          \<and> (\<forall>q \<in> set post. \<not> float_less (fst c) (fst q))
          \<and> pick_current_innings B score t1s t2s
              = Inr (or_dash (fst (snd c)),
                     or_dash (Some (if fst (snd c) = Some t1s then t2s else t1s)),
                     snd (snd c))))
    \<and> (\<forall>r1 r2 k.
          g score [lit ''team1Score'', lit ''inngs2''] JNull = JObj r1 \<and> r1 \<noteq> []
        \<and> g score [lit ''team2Score'', lit ''inngs2''] JNull = JObj r2 \<and> r2 \<noteq> []
        \<and> overs_to_float B (dict_get r1 (lit ''overs'')) = Inr k
        \<and> overs_to_float B (dict_get r2 (lit ''overs'')) = Inr k
        \<and> (\<forall>c \<in> set cands. fst c \<noteq> NaN \<and> \<not> float_less k (fst c)) \<longrightarrow>
          pick_current_innings B score t1s t2s
            = Inr (or_dash (Some t1s), or_dash (Some t2s), JObj r1))"
proof (intro conjI allI impI)
  show "map snd cands = enumerated score t1s t2s"
    using assms by (rule innings_cands_order)
next
  show "\<forall>c \<in> set cands. \<exists>kvs. snd (snd c) = JObj kvs
           \<and> overs_to_float B (dict_get kvs (lit ''overs'')) = Inr (fst c)"
    using assms by (rule innings_cands_keys)
next
  assume nonempty: "cands \<noteq> [] \<and> (\<forall>c \<in> set cands. fst c \<noteq> NaN)"
  have dicts: "\<forall>c \<in> set cands. is_dict (snd (snd c))"
    using innings_cands_keys [OF assms] by fastforce
  from nonempty have "cands \<noteq> []" "\<forall>c \<in> set cands. fst c \<noteq> NaN"
    by simp_all
  from select_innings_first [OF this dicts, of B t1s t2s] assms
  show "\<exists>pre c post.
            cands = pre @ c # post
          \<and> (\<forall>p \<in> set pre. float_less (fst p) (fst c))
          \<and> (\<forall>q \<in> set post. \<not> float_less (fst c) (fst q))
          \<and> pick_current_innings B score t1s t2s
              = Inr (or_dash (fst (snd c)),
                     or_dash (Some (if fst (snd c) = Some t1s then t2s else t1s)),
                     snd (snd c))"
    by (simp add: pick_current_innings_def ebind_def)
next
  fix r1 r2 k
  assume tie: "g score [lit ''team1Score'', lit ''inngs2''] JNull = JObj r1 \<and> r1 \<noteq> []
        \<and> g score [lit ''team2Score'', lit ''inngs2''] JNull = JObj r2 \<and> r2 \<noteq> []
        \<and> overs_to_float B (dict_get r1 (lit ''overs'')) = Inr k
        \<and> overs_to_float B (dict_get r2 (lit ''overs'')) = Inr k
        \<and> (\<forall>c \<in> set cands. fst c \<noteq> NaN \<and> \<not> float_less k (fst c))"
  then show "pick_current_innings B score t1s t2s
               = Inr (or_dash (Some t1s), or_dash (Some t2s), JObj r1)"
    using first_slot_selected [OF assms, of r1 k] by blast
qed

text \<open>A score whose two second innings both stand at twelve and a half overs, one given
  as the string \<^verbatim>\<open>"12.3"\<close> and one as the number \<^verbatim>\<open>12.5\<close>.\<close>

theorem pick_current_innings_stable_witness:
  "pick_current_innings (ascii_builtins (\<lambda>v. []))
     (JObj [(lit ''team1Score'', JObj [(lit ''inngs2'', JObj [(lit ''overs'', JStr (lit ''12.3''))])]),
            (lit ''team2Score'', JObj [(lit ''inngs2'', JObj [(lit ''overs'', JFloat (Fin (25 / 2)))])])])
     (lit ''IND'') (lit ''AUS'')
   = Inr (lit ''IND'', lit ''AUS'', JObj [(lit ''overs'', JStr (lit ''12.3''))])"
proof -
  let ?B = "ascii_builtins (\<lambda>v. [])"
  let ?r1 = "[(lit ''overs'', JStr (lit ''12.3''))]"
  let ?r2 = "[(lit ''overs'', JFloat (Fin (25 / 2)))]"
  let ?score = "JObj [(lit ''team1Score'', JObj [(lit ''inngs2'', JObj ?r1)]),
                      (lit ''team2Score'', JObj [(lit ''inngs2'', JObj ?r2)])]"
  have slot1: "g ?score [lit ''team1Score'', lit ''inngs2''] JNull = JObj ?r1"
    and slot2: "g ?score [lit ''team2Score'', lit ''inngs2''] JNull = JObj ?r2"
    and slot3: "g ?score [lit ''team1Score'', lit ''inngs1''] JNull = JNull"
    and slot4: "g ?score [lit ''team2Score'', lit ''inngs1''] JNull = JNull"
    by (simp_all add: lit_def)
  have key1: "overs_to_float ?B (dict_get ?r1 (lit ''overs'')) = Inr (Fin (25 / 2))"
    using overs_to_float_twelve_three [of "\<lambda>v. []"]
    by (simp add: dict_get_def dict_get_default_def)
  have key2: "overs_to_float ?B (dict_get ?r2 (lit ''overs'')) = Inr (Fin (25 / 2))"
    by (simp add: dict_get_def dict_get_default_def overs_to_float_def)
  have list: "attr_get ?score (lit ''inningsScoreList'') = Inr JNull"
    by (simp add: dict_get_def dict_get_default_def lit_def)
  have cands: "innings_cands ?B ?score (lit ''IND'') (lit ''AUS'')
                 = Inr [(Fin (25 / 2), Some (lit ''IND''), JObj ?r1),
                        (Fin (25 / 2), Some (lit ''AUS''), JObj ?r2)]"
    unfolding innings_cands_def Let_def slot1 slot2 slot3 slot4 list
    using key1 key2 by (simp add: py_or_def ebind_def dict_get_def dict_get_default_def)
  note all = pick_current_innings_stable [OF cands]
  from all have "g ?score [lit ''team1Score'', lit ''inngs2''] JNull = JObj ?r1 \<and> ?r1 \<noteq> []
        \<and> g ?score [lit ''team2Score'', lit ''inngs2''] JNull = JObj ?r2 \<and> ?r2 \<noteq> []
        \<and> overs_to_float ?B (dict_get ?r1 (lit ''overs'')) = Inr (Fin (25 / 2))
        \<and> overs_to_float ?B (dict_get ?r2 (lit ''overs'')) = Inr (Fin (25 / 2))
        \<and> (\<forall>c \<in> set [(Fin (25 / 2), Some (lit ''IND''), JObj ?r1),
                        (Fin (25 / 2), Some (lit ''AUS''), JObj ?r2)].
              fst c \<noteq> NaN \<and> \<not> float_less (Fin (25 / 2)) (fst c)) \<longrightarrow>
          pick_current_innings ?B ?score (lit ''IND'') (lit ''AUS'')
            = Inr (or_dash (Some (lit ''IND'')), or_dash (Some (lit ''AUS'')), JObj ?r1)"
    by blast
  moreover have "\<forall>c \<in> set [(Fin (25 / 2), Some (lit ''IND''), JObj ?r1),
                        (Fin (25 / 2), Some (lit ''AUS''), JObj ?r2)].
              fst c \<noteq> NaN \<and> \<not> float_less (Fin (25 / 2)) (fst c)"
    by simp
  ultimately have "pick_current_innings ?B ?score (lit ''IND'') (lit ''AUS'')
            = Inr (or_dash (Some (lit ''IND'')), or_dash (Some (lit ''AUS'')), JObj ?r1)"
    using slot1 slot2 key1 key2 by blast
  then show ?thesis
    by (simp add: or_dash_def lit_def)
qed

text \<open>
  The keys are compared as doubles. The strings \<^verbatim>\<open>"1.4"\<close> and \<^verbatim>\<open>"0.10"\<close> both stand for
  ten balls, but \<^verbatim>\<open>1.0 + 4 / 6.0\<close> is one step below \<^verbatim>\<open>0.0 + 10 / 6.0\<close>: between these
  two second innings there is no tie, and team 2 is picked.
\<close>

lemma round_double_near_tie:
  "round_double 0 = Fin 0"
  "round_double 1 = Fin 1"
  "round_double 10 = Fin 10"
  "round_double (5 / 3) = Fin (7505999378950827 / 4503599627370496)"
  "round_double (7505999378950827 / 4503599627370496) = Fin (7505999378950827 / 4503599627370496)"
  "round_double (1 + 6004799503160661 / 9007199254740992)
     = Fin (3752999689475413 / 2251799813685248)"
  by code_simp+

lemma overs_to_float_one_four:
  "overs_to_float (ascii_builtins R) (JStr (lit ''1.4''))
     = Inr (Fin (3752999689475413 / 2251799813685248))"
proof -
  have shape: "lit ''1.4'' = lit ''1'' @ 46 # lit ''4''" "46 \<notin> set (lit ''1'')" "46 \<notin> set (lit ''4'')"
    by (simp_all add: lit_def)
  have ov: "ascii_float (lit ''1'') = Some (Fin 1)"
    by (simp add: lit_def ascii_float_def strip_def is_space_def take_sign_def ascii_lower_def
        float_number_def cut_at_def mantissa_def digits_val_def is_digit_def round_double_near_tie)
  have b: "ascii_int (lit ''4'') = Some 4"
    by (simp add: lit_def ascii_int_def strip_def is_space_def take_sign_def digits_val_def
        is_digit_def)
  have "int_truediv 4 6 = Inr (Fin (6004799503160661 / 9007199254740992))"
    using round_double_two_thirds
    by (simp add: int_truediv_def float_of_int_def ebind_def float_div_def dbl_limit_def
        round_double_small)
  moreover have "float_add (Fin 1) (Fin (6004799503160661 / 9007199254740992))
                   = Fin (3752999689475413 / 2251799813685248)"
    by (simp only: float_add.simps round_double_near_tie)
  ultimately have "overs_try (ascii_builtins R) (lit ''1'' @ 46 # lit ''4'')
                     = Some (Fin (3752999689475413 / 2251799813685248))"
    using shape(2,3) ov b by (simp add: overs_try_balls ascii_builtins_def)
  then show ?thesis
    by (simp add: overs_to_float_def shape(1))
qed

lemma overs_to_float_zero_ten:
  "overs_to_float (ascii_builtins R) (JStr (lit ''0.10''))
     = Inr (Fin (7505999378950827 / 4503599627370496))"
proof -
  have shape: "lit ''0.10'' = lit ''0'' @ 46 # lit ''10''" "46 \<notin> set (lit ''0'')"
    "46 \<notin> set (lit ''10'')"
    by (simp_all add: lit_def)
  have ov: "ascii_float (lit ''0'') = Some (Fin 0)"
    by (simp add: lit_def ascii_float_def strip_def is_space_def take_sign_def ascii_lower_def
        float_number_def cut_at_def mantissa_def digits_val_def is_digit_def round_double_near_tie)
  have b: "ascii_int (lit ''10'') = Some 10"
    by (simp add: lit_def ascii_int_def strip_def is_space_def take_sign_def digits_val_def
        is_digit_def)
  have "int_truediv 10 6 = Inr (Fin (7505999378950827 / 4503599627370496))"
    using round_double_near_tie(4)
    by (simp add: int_truediv_def float_of_int_def ebind_def float_div_def dbl_limit_def
        round_double_near_tie(3))
  moreover have "float_add (Fin 0) (Fin (7505999378950827 / 4503599627370496))
                   = Fin (7505999378950827 / 4503599627370496)"
    using round_double_near_tie(5) by simp
  ultimately have "overs_try (ascii_builtins R) (lit ''0'' @ 46 # lit ''10'')
                     = Some (Fin (7505999378950827 / 4503599627370496))"
    using shape(2,3) ov b by (simp add: overs_try_balls ascii_builtins_def)
  then show ?thesis
    by (simp add: overs_to_float_def shape(1))
qed

lemma pick_current_innings_near_tie:
  "pick_current_innings (ascii_builtins (\<lambda>v. []))
     (JObj [(lit ''team1Score'', JObj [(lit ''inngs2'', JObj [(lit ''overs'', JStr (lit ''1.4''))])]),
            (lit ''team2Score'', JObj [(lit ''inngs2'', JObj [(lit ''overs'', JStr (lit ''0.10''))])])])
     (lit ''IND'') (lit ''AUS'')
   = Inr (lit ''AUS'', lit ''IND'', JObj [(lit ''overs'', JStr (lit ''0.10''))])"
proof -
  let ?B = "ascii_builtins (\<lambda>v. [])"
  let ?r1 = "[(lit ''overs'', JStr (lit ''1.4''))]"
  let ?r2 = "[(lit ''overs'', JStr (lit ''0.10''))]"
  let ?score = "JObj [(lit ''team1Score'', JObj [(lit ''inngs2'', JObj ?r1)]),
                      (lit ''team2Score'', JObj [(lit ''inngs2'', JObj ?r2)])]"
  have slot1: "g ?score [lit ''team1Score'', lit ''inngs2''] JNull = JObj ?r1"
    and slot2: "g ?score [lit ''team2Score'', lit ''inngs2''] JNull = JObj ?r2"
    and slot3: "g ?score [lit ''team1Score'', lit ''inngs1''] JNull = JNull"
    and slot4: "g ?score [lit ''team2Score'', lit ''inngs1''] JNull = JNull"
    by (simp_all add: lit_def)
  have key1: "overs_to_float ?B (dict_get ?r1 (lit ''overs''))
                = Inr (Fin (3752999689475413 / 2251799813685248))"
    using overs_to_float_one_four [of "\<lambda>v. []"] by (simp add: dict_get_def dict_get_default_def)
  have key2: "overs_to_float ?B (dict_get ?r2 (lit ''overs''))
                = Inr (Fin (7505999378950827 / 4503599627370496))"
    using overs_to_float_zero_ten [of "\<lambda>v. []"] by (simp add: dict_get_def dict_get_default_def)
  have list: "attr_get ?score (lit ''inningsScoreList'') = Inr JNull"
    by (simp add: dict_get_def dict_get_default_def lit_def)
  have cands: "innings_cands ?B ?score (lit ''IND'') (lit ''AUS'')
                 = Inr [(Fin (3752999689475413 / 2251799813685248), Some (lit ''IND''), JObj ?r1),
                        (Fin (7505999378950827 / 4503599627370496), Some (lit ''AUS''), JObj ?r2)]"
    unfolding innings_cands_def Let_def slot1 slot2 slot3 slot4 list
    using key1 key2 by (simp add: py_or_def ebind_def dict_get_def dict_get_default_def)
  show ?thesis
    unfolding pick_current_innings_def cands
    by (simp add: ebind_def select_innings_def first_sorted_def sort_desc_def or_dash_def py_or_def
        lit_def)
qed

subsection \<open>The innings selector on an entry of an unknown team\<close>

lemma first_sorted_nonempty: "first_sorted B cands = Inr c \<Longrightarrow> cands \<noteq> []"
  by (auto simp: first_sorted_def sort_desc_def)

text \<open>The short name that the page passes is never empty.\<close>

lemma short_name_truthy:
  assumes "short_name info team placeholder = Inr v" and "placeholder \<noteq> []"
  shows "truthy v"
proof -
  from assms(1) obtain name sname where
    v: "v = py_or sname (py_or name (py_or sname (JStr placeholder)))"
    by (auto simp: short_name_def Let_def dest!: ebind_Inr)
  with assms(2) show ?thesis
    by (simp add: py_or_def)
qed

text \<open>
  C10. When \<open>pick_current_innings\<close> picks a candidate that comes from
  \<^verbatim>\<open>inningsScoreList\<close> and whose \<^verbatim>\<open>batTeamId\<close> is equal neither to 1 nor to 2, the
  batting team it returns is the em dash and the bowling team is the short name of
  team 1, not a sentinel. The short name is not empty: the page, which makes the one call
  of the function, passes the \<^verbatim>\<open>teamSName\<close> of team 1, or else its \<^verbatim>\<open>teamName\<close>, or
  else \<^verbatim>\<open>Team 1\<close>.
\<close>

theorem pick_current_innings_unknown_team:
  assumes cands: "innings_cands B score t1s t2s = Inr cands"
    and picked: "first_sorted B cands = Inr (k, bt, JObj kvs)"
    and listed: "g score [lit ''inningsScoreList''] JNull = JArr xs"
      "(bt, JObj kvs) \<in> set (map (\<lambda>inn. (id_tag t1s t2s (g inn [lit ''batTeamId''] JNull), inn))
                               (filter is_dict xs))"
    and other: "\<not> py_eq_int (dict_get kvs (lit ''batTeamId'')) 1"
      "\<not> py_eq_int (dict_get kvs (lit ''batTeamId'')) 2"
    and name: "t1s \<noteq> []"
  shows "pick_current_innings B score t1s t2s = Inr (emdash, t1s, JObj kvs)
       \<and> (\<forall>info v. short_name info (lit ''team1'') (lit ''Team 1'') = Inr (JStr v) \<longrightarrow> v \<noteq> [])"
proof
  from listed(2) have "bt = id_tag t1s t2s (g (JObj kvs) [lit ''batTeamId''] JNull)"
    by auto
  with other have bt: "bt = None"
    by (simp add: g_one id_tag_def del: g.simps)
  from picked have "cands \<noteq> []"
    by (rule first_sorted_nonempty)
  with picked bt name have "select_innings B cands t1s t2s = Inr (emdash, t1s, JObj kvs)"
    by (simp add: select_innings_def or_dash_def py_or_def ebind_def)
  with cands show "pick_current_innings B score t1s t2s = Inr (emdash, t1s, JObj kvs)"
    by (simp add: pick_current_innings_def ebind_def)
next
  show "\<forall>info v. short_name info (lit ''team1'') (lit ''Team 1'') = Inr (JStr v) \<longrightarrow> v \<noteq> []"
  proof (intro allI impI)
    fix info v
    assume "short_name info (lit ''team1'') (lit ''Team 1'') = Inr (JStr v)"
    moreover have "lit ''Team 1'' \<noteq> []"
      by (simp add: lit_def)
    ultimately have "truthy (JStr v)"
      by (rule short_name_truthy)
    then show "v \<noteq> []"
      by simp
  qed
qed

text \<open>A score with one listed innings of team 3, between IND and AUS.\<close>

theorem pick_current_innings_unknown_team_witness:
  "pick_current_innings (ascii_builtins (\<lambda>v. []))
     (JObj [(lit ''inningsScoreList'', JArr [JObj [(lit ''batTeamId'', JInt 3)]])])
     (lit ''IND'') (lit ''AUS'')
   = Inr (emdash, lit ''IND'', JObj [(lit ''batTeamId'', JInt 3)])"
proof -
  let ?B = "ascii_builtins (\<lambda>v. [])"
  let ?kvs = "[(lit ''batTeamId'', JInt 3)]"
  let ?score = "JObj [(lit ''inningsScoreList'', JArr [JObj ?kvs])]"
  have cands: "innings_cands ?B ?score (lit ''IND'') (lit ''AUS'')
                 = Inr [(Fin (- 1), None, JObj ?kvs)]"
    by (simp add: innings_cands_def py_or_def ebind_def dict_get_def dict_get_default_def
        lit_def overs_to_float_def)
  have picked: "first_sorted ?B [(Fin (- 1), None, JObj ?kvs)] = Inr (Fin (- 1), None, JObj ?kvs)"
    by (simp add: first_sorted_def sort_desc_def)
  have listed: "g ?score [lit ''inningsScoreList''] JNull = JArr [JObj ?kvs]"
    by (simp add: lit_def)
  have entry: "(None, JObj ?kvs)
                 \<in> set (map (\<lambda>inn. (id_tag (lit ''IND'') (lit ''AUS'') (g inn [lit ''batTeamId''] JNull), inn))
                          (filter is_dict [JObj ?kvs]))"
    by (simp add: id_tag_def lit_def)
  have other: "\<not> py_eq_int (dict_get ?kvs (lit ''batTeamId'')) 1"
    "\<not> py_eq_int (dict_get ?kvs (lit ''batTeamId'')) 2"
    by (simp_all add: dict_get_def dict_get_default_def)
  have name: "lit ''IND'' \<noteq> []"
    by (simp add: lit_def)
  from pick_current_innings_unknown_team [OF cands picked listed entry other name]
  show ?thesis
    by (simp add: lit_def)
qed

subsection \<open>The payload flattener on a document without matches\<close>

lemma collect_matches_falsy:
  "\<not> truthy (dict_get kvs (lit ''typeMatches'')) \<Longrightarrow> collect_matches B (JObj kvs) = Inr []"
  by (simp add: collect_matches_def ebind_def py_or_def)

text \<open>An input that is a list, and a mapping whose \<^verbatim>\<open>typeMatches\<close> is the number 5: both
  raise.\<close>

theorem collect_matches_raises:
  "collect_matches (ascii_builtins (\<lambda>v. [])) (JArr [JInt 1]) = Inl AttributeError
   \<and> collect_matches (ascii_builtins (\<lambda>v. [])) (JObj [(lit ''typeMatches'', JInt 5)]) = Inl TypeError"
  by (simp add: collect_matches_def ebind_def py_or_def dict_get_def dict_get_default_def)

text \<open>
  C2, as the code has it. On a mapping that lacks the key \<^verbatim>\<open>typeMatches\<close>, or whose
  \<^verbatim>\<open>typeMatches\<close> is falsy (\<^verbatim>\<open>None\<close>, \<^verbatim>\<open>False\<close>, zero, or an empty string, list or
  mapping), \<open>collect_matches\<close> returns the empty list and raises nothing.
\<close>

theorem collect_matches_no_matches:
  "(map_of kvs (lit ''typeMatches'') = None \<longrightarrow> collect_matches B (JObj kvs) = Inr [])
   \<and> (\<forall>v. map_of kvs (lit ''typeMatches'') = Some v \<and> \<not> truthy v \<longrightarrow>
         collect_matches B (JObj kvs) = Inr [])"
proof (intro conjI allI impI)
  assume "map_of kvs (lit ''typeMatches'') = None"
  then have "\<not> truthy (dict_get kvs (lit ''typeMatches''))"
    by (simp add: dict_get_def dict_get_default_def)
  then show "collect_matches B (JObj kvs) = Inr []"
    by (rule collect_matches_falsy)
next
  fix v
  assume "map_of kvs (lit ''typeMatches'') = Some v \<and> \<not> truthy v"
  then have "\<not> truthy (dict_get kvs (lit ''typeMatches''))"
    by (simp add: dict_get_def dict_get_default_def)
  then show "collect_matches B (JObj kvs) = Inr []"
    by (rule collect_matches_falsy)
qed

text \<open>A mapping with a status only, and a mapping whose \<^verbatim>\<open>typeMatches\<close> is null.\<close>

theorem collect_matches_no_matches_witness:
  "collect_matches (ascii_builtins (\<lambda>v. [])) (JObj [(lit ''status'', JStr (lit ''ok''))]) = Inr []
   \<and> collect_matches (ascii_builtins (\<lambda>v. [])) (JObj [(lit ''typeMatches'', JNull)]) = Inr []"
  using collect_matches_no_matches [of "[(lit ''status'', JStr (lit ''ok''))]" "ascii_builtins (\<lambda>v. [])"]
    collect_matches_no_matches [of "[(lit ''typeMatches'', JNull)]" "ascii_builtins (\<lambda>v. [])"]
  by (simp add: lit_def)

subsection \<open>Which inputs the components accept without raising\<close>

lemma for_each_total:
  "\<forall>x \<in> set xs. \<exists>ys. body x = Inr ys \<Longrightarrow> \<exists>zs. for_each body xs = Inr zs"
proof (induction xs)
  case Nil
  then show ?case by simp
next
  case (Cons x xs)
  then obtain ys zs where "body x = Inr ys" "for_each body xs = Inr zs"
    by auto
  then show ?case
    by (simp add: ebind_def)
qed

lemma absent_or_list_iter:
  assumes "absent_or_list_of P v" and "\<And>x. P x \<Longrightarrow> \<exists>ys. body x = Inr ys"
  shows "\<exists>zs. ebind (py_iter (py_or v (JArr []))) (for_each body) = Inr zs"
proof (cases "truthy v")
  case False
  then show ?thesis
    by (simp add: py_or_def ebind_def)
next
  case True
  with assms(1) obtain xs where v: "v = JArr xs" and all: "list_all P xs"
    by (cases v) (simp_all add: absent_or_list_of_def)
  from all assms(2) have "\<forall>x \<in> set xs. \<exists>ys. body x = Inr ys"
    by (simp add: list_all_iff)
  from for_each_total [OF this] True v show ?thesis
    by (simp add: py_or_def ebind_def)
qed

lemma guess_format_dict_total: "\<exists>t. guess_format B (JObj kvs) fallback = Inr t"
  by (simp add: guess_format_first_tag)

lemma match_entry_total:
  assumes "match_shaped m"
  shows "\<exists>ys. match_entry B series_name m = Inr ys"
proof -
  from assms obtain kvs where m: "m = JObj kvs"
    by (cases m) (simp_all add: match_shaped_def)
  let ?info = "py_or (dict_get kvs (lit ''matchInfo'')) (JObj [])"
  from assms m obtain ikvs where info: "?info = JObj ikvs"
    by (cases "dict_get kvs (lit ''matchInfo'')")
       (auto simp: match_shaped_def py_or_def split: if_splits)
  obtain t where "guess_format B (JObj ikvs) (lit ''UNKNOWN'') = Inr t"
    using guess_format_dict_total by blast
  with m info show ?thesis
    by (simp add: match_entry_def ebind_def Let_def)
qed

lemma series_entry_total:
  assumes "series_shaped s"
  shows "\<exists>ys. series_entry B s = Inr ys"
proof -
  from assms obtain kvs where s: "s = JObj kvs"
    by (cases s) (simp_all add: series_shaped_def)
  show ?thesis
  proof (cases "dict_get kvs (lit ''seriesAdWrapper'')")
    case (JObj w)
    with assms s have "absent_or_list_of match_shaped (dict_get w (lit ''matches''))"
      by (simp add: series_shaped_def)
    from absent_or_list_iter [OF this match_entry_total] JObj s show ?thesis
      by (simp add: series_entry_def ebind_def Let_def)
  qed (use s in \<open>simp_all add: series_entry_def ebind_def\<close>)
qed

lemma bucket_entry_total:
  assumes "bucket_shaped b"
  shows "\<exists>ys. bucket_entry B b = Inr ys"
proof -
  from assms obtain kvs where b: "b = JObj kvs"
    and "absent_or_list_of series_shaped (dict_get kvs (lit ''seriesMatches''))"
    by (cases b) (simp_all add: bucket_shaped_def)
  from absent_or_list_iter [OF this(2) series_entry_total] b show ?thesis
    by (simp add: bucket_entry_def ebind_def)
qed

lemma collect_matches_total:
  assumes "listing_shaped payload"
  shows "\<exists>ms. collect_matches B payload = Inr ms"
proof -
  from assms obtain kvs where p: "payload = JObj kvs"
    and "absent_or_list_of bucket_shaped (dict_get kvs (lit ''typeMatches''))"
    by (cases payload) (simp_all add: listing_shaped_def)
  from absent_or_list_iter [OF this(2) bucket_entry_total] p show ?thesis
    by (simp add: collect_matches_def ebind_def)
qed

lemma overs_to_float_total:
  assumes "\<forall>n. ov = JInt n \<longrightarrow> \<bar>of_int n\<bar> < dbl_limit"
  shows "\<exists>x. overs_to_float B ov = Inr x"
proof (cases ov)
  case (JBool b)
  then show ?thesis
    by (simp add: overs_to_float_def float_of_int_def dbl_limit_def)
next
  case (JInt n)
  with assms show ?thesis
    by (simp add: overs_to_float_def float_of_int_def)
qed (simp_all add: overs_to_float_def split: option.split)

lemma overs_in_range_total:
  "overs_in_range (JObj kvs) \<Longrightarrow> \<exists>x. overs_to_float B (dict_get kvs (lit ''overs'')) = Inr x"
  by (rule overs_to_float_total) (auto simp: overs_in_range_def)

lemma slot_cands_total:
  assumes "\<forall>s \<in> set slots. slot_shaped (snd s)"
  shows "\<exists>cs. slot_cands B slots acc = Inr cs"
  using assms
proof (induction slots arbitrary: acc)
  case Nil
  then show ?case by simp
next
  case (Cons s slots)
  obtain bt inn where s: "s = (bt, inn)"
    by (cases s)
  show ?case
  proof (cases "truthy inn")
    case False
    with Cons s show ?thesis by simp
  next
    case True
    with Cons.prems s obtain kvs where inn: "inn = JObj kvs" and "overs_in_range (JObj kvs)"
      by (cases inn) (auto simp: slot_shaped_def)
    from overs_in_range_total [OF this(2)] obtain k where
      "overs_to_float B (dict_get kvs (lit ''overs'')) = Inr k"
      by blast
    moreover from Cons obtain cs where
      "slot_cands B slots (acc @ [(k, Some bt, inn)]) = Inr cs"
      by fastforce
    ultimately show ?thesis
      using True s inn by (simp add: ebind_def)
  qed
qed

lemma isl_cands_total:
  assumes "list_all overs_in_range xs"
  shows "\<exists>cs. isl_cands B t1s t2s xs acc = Inr cs"
  using assms
proof (induction xs arbitrary: acc)
  case Nil
  then show ?case by simp
next
  case (Cons inn xs)
  show ?case
  proof (cases inn)
    case (JObj kvs)
    with Cons.prems have "overs_in_range (JObj kvs)"
      by simp
    from overs_in_range_total [OF this] obtain k where
      k: "overs_to_float B (dict_get kvs (lit ''overs'')) = Inr k"
      by blast
    from Cons.prems have "list_all overs_in_range xs"
      by simp
    from Cons.IH [OF this] JObj k show ?thesis
      by (simp add: ebind_def Let_def)
  qed (use Cons in simp_all)
qed

lemma slot_shaped_or: "slot_shaped x \<Longrightarrow> slot_shaped (py_or x (JObj []))"
  by (simp add: py_or_def slot_shaped_def)

lemma innings_cands_total:
  assumes "score_shaped score"
  shows "\<exists>cands. innings_cands B score t1s t2s = Inr cands"
proof -
  from assms obtain kvs where score: "score = JObj kvs"
    by (cases score) (simp_all add: score_shaped_def)
  let ?slots = "[(t1s, py_or (g score [lit ''team1Score'', lit ''inngs2''] JNull) (JObj [])),
                 (t2s, py_or (g score [lit ''team2Score'', lit ''inngs2''] JNull) (JObj [])),
                 (t1s, py_or (g score [lit ''team1Score'', lit ''inngs1''] JNull) (JObj [])),
                 (t2s, py_or (g score [lit ''team2Score'', lit ''inngs1''] JNull) (JObj []))]"
  from assms score have "\<forall>s \<in> set ?slots. slot_shaped (snd s)"
    by (simp add: score_shaped_def slot_shaped_or del: g.simps)
  from slot_cands_total [OF this] obtain c1 where c1: "slot_cands B ?slots [] = Inr c1"
    by blast
  have "\<exists>cands. (case dict_get kvs (lit ''inningsScoreList'') of
                    JArr xs \<Rightarrow> isl_cands B t1s t2s xs c1
                  | _ \<Rightarrow> Inr c1) = Inr cands"
  proof (cases "dict_get kvs (lit ''inningsScoreList'')")
    case (JArr xs)
    with assms score have "list_all overs_in_range xs"
      by (simp add: score_shaped_def del: g.simps)
    from isl_cands_total [OF this] JArr show ?thesis
      by simp
  qed simp_all
  then obtain cands where
    "(case dict_get kvs (lit ''inningsScoreList'') of
        JArr xs \<Rightarrow> isl_cands B t1s t2s xs c1
      | _ \<Rightarrow> Inr c1) = Inr cands"
    by blast
  with c1 score have "innings_cands B score t1s t2s = Inr cands"
    unfolding innings_cands_def Let_def by (simp add: ebind_def del: g.simps slot_cands.simps)
  then show ?thesis ..
qed

lemma first_sorted_total: "cands \<noteq> [] \<Longrightarrow> \<exists>c. first_sorted B cands = Inr c"
proof (cases "sort_desc cands")
  case Nil
  then have "length cands = 0"
    using length_sort_desc [of cands] by simp
  moreover assume "cands \<noteq> []"
  ultimately show ?thesis
    by simp
next
  case (Cons c rest)
  show ?thesis
  proof (cases "list_ex (\<lambda>c. fst c = NaN) cands")
    case True
    then have "first_sorted B cands = Inr (nan_sort_first B cands)"
      by (simp add: first_sorted_def)
    then show ?thesis ..
  next
    case False
    with Cons have "first_sorted B cands = Inr c"
      by (simp add: first_sorted_def)
    then show ?thesis ..
  qed
qed

lemma select_innings_total: "\<exists>res. select_innings B cands t1s t2s = Inr res"
proof (cases "cands = []")
  case True
  then show ?thesis
    by (simp add: select_innings_def)
next
  case False
  from first_sorted_total [OF this] obtain c where "first_sorted B cands = Inr c"
    by blast
  with False show ?thesis
    by (cases c) (simp add: select_innings_def ebind_def)
qed

lemma pick_current_innings_total:
  assumes "score_shaped score"
  shows "\<exists>res. pick_current_innings B score t1s t2s = Inr res"
proof -
  from innings_cands_total [OF assms] obtain cands where
    "innings_cands B score t1s t2s = Inr cands"
    by blast
  with select_innings_total [of B cands t1s t2s] show ?thesis
    by (auto simp: pick_current_innings_def ebind_def)
qed

lemma pick_current_innings_nothing:
  "innings_cands B score t1s t2s = Inr [] \<Longrightarrow>
     pick_current_innings B score t1s t2s = Inr (emdash, emdash, JObj [])"
  by (simp add: pick_current_innings_def ebind_def select_innings_def)

text \<open>The loop of the breakdown raises nothing when its integers are small enough for the
  partial sums to fit a double.\<close>

lemma float_of_int_small: "\<bar>of_int n\<bar> < dbl_limit \<Longrightarrow> \<exists>x. float_of_int n = Inr x"
  by (simp add: float_of_int_def)

lemma sum_extras_float_total:
  assumes "\<forall>k \<in> set ks. \<forall>n. as_int (dict_get ed k) = Some n \<longrightarrow> \<bar>of_int n\<bar> < dbl_limit"
  shows "\<exists>t. sum_extras ed ks (NFloat f) = Inr t"
  using assms
proof (induction ks arbitrary: f)
  case Nil
  then show ?case by simp
next
  case (Cons k ks)
  then have rest: "\<And>h. \<exists>t. sum_extras ed ks (NFloat h) = Inr t"
    by simp
  show ?case
  proof (cases "dict_get ed k")
    case (JInt n)
    with Cons.prems have "\<bar>of_int n\<bar> < dbl_limit"
      by simp
    with JInt rest show ?thesis
      by (simp add: ebind_def float_of_int_def)
  next
    case (JBool b)
    with rest show ?thesis
      by (simp add: ebind_def float_of_int_def dbl_limit_def)
  qed (use rest in \<open>simp_all add: ebind_def\<close>)
qed

lemma sum_extras_int_total:
  assumes "\<forall>k \<in> set ks. \<forall>n. as_int (dict_get ed k) = Some n \<longrightarrow> \<bar>n\<bar> \<le> M"
    and "of_int (\<bar>a\<bar> + int (length ks) * M) < dbl_limit" and "0 \<le> M"
  shows "\<exists>t. sum_extras ed ks (NInt a) = Inr t"
  using assms
proof (induction ks arbitrary: a)
  case Nil
  then show ?case by simp
next
  case (Cons k ks)
  from Cons.prems have fields: "\<forall>k \<in> set ks. \<forall>n. as_int (dict_get ed k) = Some n \<longrightarrow> \<bar>n\<bar> \<le> M"
    by simp
  from Cons.prems have small: "(of_int M :: rat) < dbl_limit" "(of_int \<bar>a\<bar> :: rat) < dbl_limit"
  proof -
    have "M \<le> \<bar>a\<bar> + int (length (k # ks)) * M" "\<bar>a\<bar> \<le> \<bar>a\<bar> + int (length (k # ks)) * M"
      using \<open>0 \<le> M\<close> by (simp_all add: algebra_simps)
    then have "(of_int M :: rat) \<le> of_int (\<bar>a\<bar> + int (length (k # ks)) * M)"
      "(of_int \<bar>a\<bar> :: rat) \<le> of_int (\<bar>a\<bar> + int (length (k # ks)) * M)"
      by (simp_all only: of_int_le_iff)
    with Cons.prems(2) show "(of_int M :: rat) < dbl_limit" "(of_int \<bar>a\<bar> :: rat) < dbl_limit"
      by linarith+
  qed
  have floats: "\<exists>t. sum_extras ed ks (NFloat h) = Inr t" for h
  proof (rule sum_extras_float_total, intro ballI allI impI)
    fix k' n
    assume "k' \<in> set ks" "as_int (dict_get ed k') = Some n"
    with fields have "\<bar>n\<bar> \<le> M"
      by blast
    then have "(of_int \<bar>n\<bar> :: rat) \<le> of_int M"
      by (simp only: of_int_le_iff)
    with small show "\<bar>(of_int n :: rat)\<bar> < dbl_limit"
      by simp
  qed
  have ints: "\<exists>t. sum_extras ed ks (NInt (a + n)) = Inr t" if "\<bar>n\<bar> \<le> M" for n
  proof (rule Cons.IH [OF fields _ \<open>0 \<le> M\<close>])
    have "\<bar>a + n\<bar> + int (length ks) * M \<le> \<bar>a\<bar> + int (length (k # ks)) * M"
      using that by (simp add: algebra_simps)
    then have "(of_int (\<bar>a + n\<bar> + int (length ks) * M) :: rat)
                 \<le> of_int (\<bar>a\<bar> + int (length (k # ks)) * M)"
      by (simp only: of_int_le_iff)
    with Cons.prems(2) show "(of_int (\<bar>a + n\<bar> + int (length ks) * M) :: rat) < dbl_limit"
      by linarith
  qed
  have skip: "\<exists>t. sum_extras ed ks (NInt a) = Inr t"
    using ints [of 0] \<open>0 \<le> M\<close> by simp
  show ?case
  proof (cases "dict_get ed k")
    case (JInt n)
    with Cons.prems(1) have "\<bar>n\<bar> \<le> M"
      by simp
    from ints [OF this] JInt show ?thesis
      by (simp add: ebind_def)
  next
    case (JBool b)
    with Cons.prems(1) have "\<bar>if b then 1 else 0 :: int\<bar> \<le> M"
      by simp
    from ints [OF this] JBool show ?thesis
      by (simp add: ebind_def)
  next
    case (JFloat h)
    with floats small show ?thesis
      by (simp add: ebind_def float_of_int_def)
  qed (use skip in simp_all)
qed

lemma extract_extras_total:
  assumes "\<forall>ed. (dict_get kvs (lit ''extras'') = JObj ed \<or> dict_get kvs (lit ''extraDetail'') = JObj ed) \<longrightarrow>
             (\<forall>k \<in> set extras_keys. \<forall>n. as_int (dict_get ed k) = Some n \<longrightarrow> \<bar>n\<bar> \<le> 2 ^ 1000)"
  shows "\<exists>v. extract_extras (JObj kvs) = Inr v"
proof -
  have sum: "\<exists>t. sum_extras ed extras_keys (NInt 0) = Inr t"
    if "dict_get kvs (lit ''extras'') = JObj ed \<or> dict_get kvs (lit ''extraDetail'') = JObj ed" for ed
  proof (rule sum_extras_int_total [where M = "2 ^ 1000"])
    from assms that
    show "\<forall>k \<in> set extras_keys. \<forall>n. as_int (dict_get ed k) = Some n \<longrightarrow> \<bar>n\<bar> \<le> 2 ^ 1000"
      by blast
    show "of_int (\<bar>0\<bar> + int (length extras_keys) * 2 ^ 1000) < dbl_limit"
      by (simp add: extras_keys_def dbl_limit_def)
    show "(0::int) \<le> 2 ^ 1000"
      by simp
  qed
  show ?thesis
  proof (cases "dict_get kvs (lit ''extras'')")
    case (JObj ed)
    with sum [of ed] show ?thesis
      by (auto simp: extract_extras_def ebind_def)
  next
    case JNull
    show ?thesis
    proof (cases "dict_get kvs (lit ''extraDetail'')")
      case (JObj ed)
      with sum [of ed] JNull show ?thesis
        by (auto simp: extract_extras_def ebind_def)
    qed (use JNull in \<open>simp_all add: extract_extras_def\<close>)
  next
    case (JArr xs)
    show ?thesis
    proof (cases "dict_get kvs (lit ''extraDetail'')")
      case (JObj ed)
      with sum [of ed] JArr show ?thesis
        by (auto simp: extract_extras_def ebind_def)
    qed (use JArr in \<open>simp_all add: extract_extras_def\<close>)
  qed (simp_all add: extract_extras_def)
qed

lemma guess_format_total:
  assumes "is_dict info \<or> \<not> truthy info"
  shows "\<exists>t. guess_format B info fallback = Inr t"
proof (cases "truthy info")
  case False
  then show ?thesis
    by (simp add: guess_format_falsy)
next
  case True
  with assms obtain kvs where "info = JObj kvs"
    by (cases info) simp_all
  then show ?thesis
    by (simp add: guess_format_dict_total)
qed

text \<open>Inputs on which a component raises: a match info and a score that are lists, a
  \<^verbatim>\<open>typeMatches\<close> that is a string, an \<^verbatim>\<open>overs\<close> that is the integer \<open>10^400\<close>, and an
  extras breakdown that adds that integer to a float.\<close>

theorem components_raise:
  "guess_format (ascii_builtins (\<lambda>v. [])) (JArr [JNull]) (lit ''UNKNOWN'') = Inl AttributeError
   \<and> pick_current_innings (ascii_builtins (\<lambda>v. [])) (JArr []) (lit ''IND'') (lit ''AUS'')
       = Inl AttributeError
   \<and> collect_matches (ascii_builtins (\<lambda>v. [])) (JObj [(lit ''typeMatches'', JStr (lit ''none''))])
       = Inl AttributeError
   \<and> overs_to_float (ascii_builtins (\<lambda>v. [])) (JInt (10 ^ 400)) = Inl OverflowError
   \<and> extract_extras (JObj [(lit ''extraDetail'',
          JObj [(lit ''byes'', JInt (10 ^ 400)), (lit ''wides'', JFloat (Fin (3 / 2)))])])
       = Inl OverflowError"
proof (intro conjI)
  show "guess_format (ascii_builtins (\<lambda>v. [])) (JArr [JNull]) (lit ''UNKNOWN'') = Inl AttributeError"
    by (simp add: guess_format_def py_or_def ebind_def)
  show "pick_current_innings (ascii_builtins (\<lambda>v. [])) (JArr []) (lit ''IND'') (lit ''AUS'')
          = Inl AttributeError"
    by (simp add: pick_current_innings_def innings_cands_def py_or_def ebind_def)
  show "collect_matches (ascii_builtins (\<lambda>v. [])) (JObj [(lit ''typeMatches'', JStr (lit ''none''))])
          = Inl AttributeError"
    by (simp add: collect_matches_def bucket_entry_def py_or_def ebind_def dict_get_def
        dict_get_default_def lit_def)
  show "overs_to_float (ascii_builtins (\<lambda>v. [])) (JInt (10 ^ 400)) = Inl OverflowError"
    by (simp add: overs_to_float_def float_of_int_def dbl_limit_def)
  show "extract_extras (JObj [(lit ''extraDetail'',
          JObj [(lit ''byes'', JInt (10 ^ 400)), (lit ''wides'', JFloat (Fin (3 / 2)))])])
          = Inl OverflowError"
    by (simp add: extract_extras_def extras_keys_def dict_get_def dict_get_default_def lit_def
        ebind_def float_of_int_def dbl_limit_def)
qed

text \<open>
  C1, as the code has it. The components raise nothing on the documents of the expected
  shape, and there a field that cannot be computed is its sentinel:
  \<^item> \<open>show_innings\<close> has no operation that can raise, and gives the empty string on
    anything that is not a dict;
  \<^item> \<open>extract_extras\<close> gives the em dash on anything that is not a dict, and raises nothing
    on a dict whose breakdown holds no integer above \<open>2^1000\<close> in magnitude;
  \<^item> \<open>overs_to_float\<close> raises nothing except on an integer that a double cannot hold;
  \<^item> \<open>guess_format\<close> raises nothing on a dict or a falsy value, and gives the fallback on
    a falsy value;
  \<^item> \<open>pick_current_innings\<close> raises nothing on a score of the shape \<open>score_shaped\<close>,
    and gives two em dashes and the empty record when there is no candidate;
  \<^item> \<open>collect_matches\<close> raises nothing on a listing of the shape \<open>listing_shaped\<close>.
\<close>

theorem components_total:
  "(\<not> is_dict doc \<longrightarrow> show_innings B doc = [])
   \<and> (\<not> is_dict doc \<longrightarrow> extract_extras doc = Inr (JStr emdash))
   \<and> ((\<forall>ed. (dict_get kvs (lit ''extras'') = JObj ed \<or> dict_get kvs (lit ''extraDetail'') = JObj ed) \<longrightarrow>
          (\<forall>k \<in> set extras_keys. \<forall>n. as_int (dict_get ed k) = Some n \<longrightarrow> \<bar>n\<bar> \<le> 2 ^ 1000)) \<longrightarrow>
       (\<exists>v. extract_extras (JObj kvs) = Inr v))
   \<and> ((\<forall>n. doc = JInt n \<longrightarrow> \<bar>of_int n\<bar> < dbl_limit) \<longrightarrow> (\<exists>x. overs_to_float B doc = Inr x))
   \<and> (is_dict doc \<or> \<not> truthy doc \<longrightarrow> (\<exists>t. guess_format B doc fallback = Inr t))
   \<and> (\<not> truthy doc \<longrightarrow> guess_format B doc fallback = Inr fallback)
   \<and> (score_shaped doc \<longrightarrow> (\<exists>res. pick_current_innings B doc t1s t2s = Inr res))
   \<and> (innings_cands B doc t1s t2s = Inr [] \<longrightarrow>
         pick_current_innings B doc t1s t2s = Inr (emdash, emdash, JObj []))
   \<and> (listing_shaped doc \<longrightarrow> (\<exists>ms. collect_matches B doc = Inr ms))"
proof (intro conjI impI)
  assume "\<not> is_dict doc"
  then show "show_innings B doc = []"
    by (cases doc) (simp_all add: show_innings_def)
next
  assume "\<not> is_dict doc"
  then show "extract_extras doc = Inr (JStr emdash)"
    by (cases doc) (simp_all add: extract_extras_def)
next
  assume "\<forall>ed. (dict_get kvs (lit ''extras'') = JObj ed \<or> dict_get kvs (lit ''extraDetail'') = JObj ed) \<longrightarrow>
          (\<forall>k \<in> set extras_keys. \<forall>n. as_int (dict_get ed k) = Some n \<longrightarrow> \<bar>n\<bar> \<le> 2 ^ 1000)"
  then show "\<exists>v. extract_extras (JObj kvs) = Inr v"
    by (rule extract_extras_total)
next
  assume "\<forall>n. doc = JInt n \<longrightarrow> \<bar>of_int n\<bar> < dbl_limit"
  then show "\<exists>x. overs_to_float B doc = Inr x"
    by (rule overs_to_float_total)
next
  assume "is_dict doc \<or> \<not> truthy doc"
  then show "\<exists>t. guess_format B doc fallback = Inr t"
    by (rule guess_format_total)
next
  assume "\<not> truthy doc"
  then show "guess_format B doc fallback = Inr fallback"
    by (rule guess_format_falsy)
next
  assume "score_shaped doc"
  then show "\<exists>res. pick_current_innings B doc t1s t2s = Inr res"
    by (rule pick_current_innings_total)
next
  assume "innings_cands B doc t1s t2s = Inr []"
  then show "pick_current_innings B doc t1s t2s = Inr (emdash, emdash, JObj [])"
    by (rule pick_current_innings_nothing)
next
  assume "listing_shaped doc"
  then show "\<exists>ms. collect_matches B doc = Inr ms"
    by (rule collect_matches_total)
qed


text \<open>One input for each part: values that are not dicts, a breakdown that mixes an integer
  and a float, an \<^verbatim>\<open>overs\<close> that is no number, a match info whose format is a number, the
  value \<^verbatim>\<open>None\<close>, a score whose \<^verbatim>\<open>team1Score\<close> is a string, the empty score, and a listing
  with one series that holds one match and one advertisement.\<close>

theorem components_total_witness:
  "show_innings (ascii_builtins (\<lambda>v. [])) (JArr []) = []
   \<and> extract_extras (JStr (lit ''n/a'')) = Inr (JStr emdash)
   \<and> (\<exists>v. extract_extras (JObj [(lit ''extraDetail'',
              JObj [(lit ''byes'', JInt 2), (lit ''wides'', JFloat (Fin (3 / 2)))])]) = Inr v)
   \<and> (\<exists>x. overs_to_float (ascii_builtins (\<lambda>v. [])) (JStr (lit ''abc'')) = Inr x)
   \<and> (\<exists>t. guess_format (ascii_builtins (\<lambda>v. [])) (JObj [(lit ''matchFormat'', JInt 1)])
              (lit ''UNKNOWN'') = Inr t)
   \<and> guess_format (ascii_builtins (\<lambda>v. [])) JNull (lit ''UNKNOWN'') = Inr (lit ''UNKNOWN'')
   \<and> (\<exists>res. pick_current_innings (ascii_builtins (\<lambda>v. []))
                (JObj [(lit ''team1Score'', JStr (lit ''n/a''))]) (lit ''IND'') (lit ''AUS'') = Inr res)
   \<and> pick_current_innings (ascii_builtins (\<lambda>v. [])) (JObj []) (lit ''IND'') (lit ''AUS'')
       = Inr (emdash, emdash, JObj [])
   \<and> (\<exists>ms. collect_matches (ascii_builtins (\<lambda>v. []))
               (JObj [(lit ''typeMatches'',
                  JArr [JObj [(lit ''seriesMatches'',
                    JArr [JObj [(lit ''seriesAdWrapper'',
                            JObj [(lit ''seriesName'', JStr (lit ''Ashes'')),
                                  (lit ''matches'',
                                   JArr [JObj [(lit ''matchInfo'',
                                     JObj [(lit ''matchId'', JInt 7),
                                           (lit ''matchFormat'', JStr (lit ''TEST''))])]])])],
                          JObj [(lit ''adDetail'', JObj [])]])]])]) = Inr ms)"
proof -
  let ?B = "ascii_builtins (\<lambda>v. [])"
  let ?breakdown = "[(lit ''extraDetail'',
                      JObj [(lit ''byes'', JInt 2), (lit ''wides'', JFloat (Fin (3 / 2)))])]"
  let ?listing = "JObj [(lit ''typeMatches'',
                  JArr [JObj [(lit ''seriesMatches'',
                    JArr [JObj [(lit ''seriesAdWrapper'',
                            JObj [(lit ''seriesName'', JStr (lit ''Ashes'')),
                                  (lit ''matches'',
                                   JArr [JObj [(lit ''matchInfo'',
                                     JObj [(lit ''matchId'', JInt 7),
                                           (lit ''matchFormat'', JStr (lit ''TEST''))])]])])],
                          JObj [(lit ''adDetail'', JObj [])]])]])]"
  note at = components_total [of _ ?B _ "lit ''UNKNOWN''" "lit ''IND''" "lit ''AUS''"]
  have one: "show_innings ?B (JArr []) = []"
    using at [of "JArr []" "[]"] by simp
  have two: "extract_extras (JStr (lit ''n/a'')) = Inr (JStr emdash)"
    using at [of "JStr (lit ''n/a'')" "[]"] by simp
  have "\<forall>ed. (dict_get ?breakdown (lit ''extras'') = JObj ed
              \<or> dict_get ?breakdown (lit ''extraDetail'') = JObj ed) \<longrightarrow>
          (\<forall>k \<in> set extras_keys. \<forall>n. as_int (dict_get ed k) = Some n \<longrightarrow> \<bar>n\<bar> \<le> 2 ^ 1000)"
    by (auto simp: dict_get_def dict_get_default_def lit_def extras_keys_def)
  with at [of JNull ?breakdown] have three: "\<exists>v. extract_extras (JObj ?breakdown) = Inr v"
    by blast
  have four: "\<exists>x. overs_to_float ?B (JStr (lit ''abc'')) = Inr x"
    using at [of "JStr (lit ''abc'')" "[]"] by simp
  have five: "\<exists>t. guess_format ?B (JObj [(lit ''matchFormat'', JInt 1)]) (lit ''UNKNOWN'') = Inr t"
    using at [of "JObj [(lit ''matchFormat'', JInt 1)]" "[]"] by simp
  have six: "guess_format ?B JNull (lit ''UNKNOWN'') = Inr (lit ''UNKNOWN'')"
    using at [of JNull "[]"] by simp
  have "score_shaped (JObj [(lit ''team1Score'', JStr (lit ''n/a''))])"
    by (simp add: score_shaped_def slot_shaped_def dict_get_def dict_get_default_def lit_def)
  with at [of "JObj [(lit ''team1Score'', JStr (lit ''n/a''))]" "[]"]
  have seven: "\<exists>res. pick_current_innings ?B (JObj [(lit ''team1Score'', JStr (lit ''n/a''))])
                       (lit ''IND'') (lit ''AUS'') = Inr res"
    by blast
  have "innings_cands ?B (JObj []) (lit ''IND'') (lit ''AUS'') = Inr []"
    by (simp add: innings_cands_def py_or_def ebind_def dict_get_def dict_get_default_def)
  with at [of "JObj []" "[]"]
  have eight: "pick_current_innings ?B (JObj []) (lit ''IND'') (lit ''AUS'')
                 = Inr (emdash, emdash, JObj [])"
    by blast
  have "listing_shaped ?listing"
    by (simp add: listing_shaped_def bucket_shaped_def series_shaped_def match_shaped_def
        absent_or_list_of_def dict_get_def dict_get_default_def lit_def)
  with at [of ?listing "[]"] have nine: "\<exists>ms. collect_matches ?B ?listing = Inr ms"
    by blast
  from one two three four five six seven eight nine show ?thesis
    by (intro conjI) assumption+
qed

end
